theory Spec2Isabelle
  imports Complex_Main
begin

section \<open>Monte-Carlo search for a power-law scaling regime (montecarlo.py)\<close>

text \<open>
  The embedding follows \<^verbatim>\<open>src/montecarlo.py\<close>. Floating-point numbers are idealised as
  \<^typ>\<open>real\<close>; numpy arrays are lists; array indices and run counts are natural numbers.
  The functions imported from the sibling modules \<^verbatim>\<open>distances\<close>, \<^verbatim>\<open>brent\<close> and
  \<^verbatim>\<open>likelihoods\<close>, and numpy's random generator, are parameters of the model, collected
  in the record \<open>collab\<close>; the random generator's state is threaded explicitly.
\<close>

subsection \<open>expfun\<close>

text \<open>
  \<^verbatim>\<open>val = 0; for i in range(1,numterms+1): val = val + (-1)**(i-1)*np.exp(-2* i**2 * x**2)\<close>
  and \<^verbatim>\<open>return 2*val\<close>.
\<close>

fun expfun_loop :: "real \<Rightarrow> nat list \<Rightarrow> real \<Rightarrow> real" where
  "expfun_loop x [] val = val"
| "expfun_loop x (i # is) val =
     expfun_loop x is (val + (- 1) ^ (i - 1) * exp (- 2 * (real i)\<^sup>2 * x\<^sup>2))"

definition expfun :: "real \<Rightarrow> nat \<Rightarrow> real" where
  "expfun x numterms = 2 * expfun_loop x [1..<numterms + 1] 0"

text \<open>The series the loop computes, as the specification writes it.\<close>

definition expfun_series :: "real \<Rightarrow> nat \<Rightarrow> real" where
  "expfun_series x numterms =
     2 * (\<Sum>i = 1..numterms. (- 1) ^ (i - 1) * exp (- 2 * (real i)\<^sup>2 * x\<^sup>2))"

subsection \<open>Python values and numpy primitives\<close>

datatype py_error = IndexError | ValueError | ZeroDivisionError

text \<open>\<^verbatim>\<open>xs[a:b]\<close> for non-negative \<open>a\<close>, \<open>b\<close>: it never raises and is empty when \<open>b \<le> a\<close>.\<close>

definition slice :: "'a list \<Rightarrow> nat \<Rightarrow> nat \<Rightarrow> 'a list" where
  "slice xs a b = drop a (take b xs)"

text \<open>\<^verbatim>\<open>np.where(xs > t)[0]\<close>: the indices of the entries above \<open>t\<close>, ascending.\<close>

definition np_where_gt :: "real list \<Rightarrow> real \<Rightarrow> nat list" where
  "np_where_gt xs t = filter (\<lambda>i. xs ! i > t) [0..<length xs]"

text \<open>\<^verbatim>\<open>xs[idxs]\<close> for an index array \<open>idxs\<close>.\<close>

definition take_idx :: "'a list \<Rightarrow> nat list \<Rightarrow> 'a list" where
  "take_idx xs idxs = map (\<lambda>i. xs ! i) idxs"

text \<open>
  \<^verbatim>\<open>np.argmax\<close>: a left-to-right scan keeping the first position of the largest entry;
  it raises \<^verbatim>\<open>ValueError\<close> on an empty array.
\<close>

fun argmax_scan :: "real list \<Rightarrow> nat \<Rightarrow> nat \<Rightarrow> real \<Rightarrow> nat" where
  "argmax_scan [] i best bv = best"
| "argmax_scan (x # xs) i best bv =
     (if x > bv then argmax_scan xs (Suc i) i x else argmax_scan xs (Suc i) best bv)"

definition np_argmax :: "real list \<Rightarrow> py_error + nat" where
  "np_argmax xs = (case xs of [] \<Rightarrow> Inl ValueError | x # rest \<Rightarrow> Inr (argmax_scan rest 1 0 x))"

subsection \<open>Collaborators\<close>

text \<open>
  The imported functions, as parameters. \<open>pl_gen\<close> and \<open>random_rand\<close> draw from a
  random generator whose state has type \<open>'g\<close>. The third argument of
  \<open>find_nearest_idx_discrete\<close> is the rounding flag (1 or 0).
\<close>

record 'g collab =
  find_d_sorted :: "real list \<Rightarrow> real \<Rightarrow> real"
  find_ad_sorted :: "real list \<Rightarrow> real \<Rightarrow> real"
  find_d_sorted_discrete :: "real list \<Rightarrow> real \<Rightarrow> real"
  find_nearest_idx :: "real list \<Rightarrow> real \<Rightarrow> nat"
  find_nearest_idx_discrete :: "real list \<Rightarrow> real \<Rightarrow> nat \<Rightarrow> nat"
  brent_findmin :: "real list \<Rightarrow> real"
  brent_findmin_discrete :: "real list \<Rightarrow> real"
  pl_gen :: "nat \<Rightarrow> real \<Rightarrow> real \<Rightarrow> real \<Rightarrow> 'g \<Rightarrow> real list \<times> 'g"
  random_rand :: "'g \<Rightarrow> real \<times> 'g"

subsection \<open>find\_true\_p and find\_p\_core\<close>

text \<open>
  The body of \<^verbatim>\<open>for i in range(runs)\<close> in \<^verbatim>\<open>find_true_p\<close>; the argument before
  \<open>tot\<close> counts the iterations still to run, \<open>tot\<close> is the counter.
\<close>

fun true_p_loop ::
  "'g collab \<Rightarrow> (real list \<Rightarrow> real \<Rightarrow> real) \<Rightarrow> nat \<Rightarrow> real \<Rightarrow> real \<Rightarrow> real \<Rightarrow> real
     \<Rightarrow> nat \<Rightarrow> nat \<Rightarrow> 'g \<Rightarrow> nat \<times> 'g" where
  "true_p_loop c dfn n xmin xmax alpha de 0 tot g = (tot, g)"
| "true_p_loop c dfn n xmin xmax alpha de (Suc k) tot g =
     (let (raw, g') = pl_gen c n xmin xmax alpha g;
          synth = sort raw;
          asynth = brent_findmin c synth;
          ds = dfn synth asynth
      in true_p_loop c dfn n xmin xmax alpha de k (if ds \<ge> de then tot + 1 else tot) g')"

text \<open>
  \<^verbatim>\<open>p = tot/runs\<close> raises \<^verbatim>\<open>ZeroDivisionError\<close> for \<open>runs = 0\<close> (numba's default
  error model is Python's).
\<close>

definition find_true_p ::
  "'g collab \<Rightarrow> real list \<Rightarrow> real \<Rightarrow> real \<Rightarrow> nat \<Rightarrow> (real list \<Rightarrow> real \<Rightarrow> real) \<Rightarrow> 'g
     \<Rightarrow> (py_error + real \<times> real) \<times> 'g" where
  "find_true_p c x xmin xmax runs dfn g =
     (let xmin_idx = find_nearest_idx c x xmin;
          xmax_idx = find_nearest_idx c x xmax;
          x' = slice x xmin_idx (xmax_idx + 1);
          n = length x';
          alpha = brent_findmin c x';
          de = dfn x' alpha;
          (tot, g') = true_p_loop c dfn n xmin xmax alpha de runs 0 g
      in if runs = 0 then (Inl ZeroDivisionError, g')
         else (let p = real tot / real runs;
                   sigp = sqrt (p * (1 - p) / real runs)
               in (Inr (p, sigp), g')))"

text \<open>
  \<^verbatim>\<open>find_p_core\<close>: the \<^verbatim>\<open>prange\<close> loop over the candidates, run here in index order on
  one generator; an exception of one iteration ends the call.
\<close>

fun find_p_core_loop ::
  "'g collab \<Rightarrow> real list \<Rightarrow> (real \<times> real) list \<Rightarrow> nat \<Rightarrow> (real list \<Rightarrow> real \<Rightarrow> real) \<Rightarrow> 'g
     \<Rightarrow> (py_error + real list) \<times> 'g" where
  "find_p_core_loop c data [] pruns dfn g = (Inr [], g)"
| "find_p_core_loop c data ((xmin, xmax) # rest) pruns dfn g =
     (let xmin_idx = find_nearest_idx c data xmin;
          xmax_idx = find_nearest_idx c data xmax;
          trimmed = slice data xmin_idx (xmax_idx + 1)
      in case find_true_p c trimmed xmin xmax pruns dfn g of
           (Inl e, g') \<Rightarrow> (Inl e, g')
         | (Inr (p, sigp), g') \<Rightarrow>
             (case find_p_core_loop c data rest pruns dfn g' of
                (Inl e, g'') \<Rightarrow> (Inl e, g'')
              | (Inr ps, g'') \<Rightarrow> (Inr (p # ps), g'')))"

definition find_p_core ::
  "'g collab \<Rightarrow> real list \<Rightarrow> real list \<Rightarrow> real list \<Rightarrow> nat \<Rightarrow> (real list \<Rightarrow> real \<Rightarrow> real) \<Rightarrow> 'g
     \<Rightarrow> (py_error + real list) \<times> 'g" where
  "find_p_core c data possible_xmins possible_xmaxs pruns dfn g =
     find_p_core_loop c data (zip possible_xmins possible_xmaxs) pruns dfn g"

subsection \<open>find\_pl\_montecarlo: choice of the distance functions\<close>

text \<open>
  The local variables \<^verbatim>\<open>distfun\<close>, \<^verbatim>\<open>dfun\<close>, \<^verbatim>\<open>brent\<close>, \<^verbatim>\<open>nearest_first\<close> and
  \<^verbatim>\<open>nearest_last\<close> after the \<^verbatim>\<open>if dist_type == ...\<close> chain; \<open>None\<close> is the
  \<^verbatim>\<open>else\<close> branch.
\<close>

record strategy =
  distfun :: "real list \<Rightarrow> real \<Rightarrow> real"
  dfun :: "real list \<Rightarrow> real \<Rightarrow> real"
  brent :: "real list \<Rightarrow> real"
  nearest_first :: "real list \<Rightarrow> real \<Rightarrow> nat"
  nearest_last :: "real list \<Rightarrow> real \<Rightarrow> nat"

definition initial_strategy :: "'g collab \<Rightarrow> strategy" where
  "initial_strategy c =
     \<lparr>distfun = find_d_sorted c, dfun = find_d_sorted c, brent = brent_findmin c,
      nearest_first = find_nearest_idx c, nearest_last = find_nearest_idx c\<rparr>"

definition select_strategy :: "'g collab \<Rightarrow> string \<Rightarrow> strategy option" where
  "select_strategy c dist_type =
     (if dist_type = ''KS'' then
        Some ((initial_strategy c)\<lparr>distfun := find_d_sorted c, dfun := find_d_sorted c,
                brent := brent_findmin c, nearest_first := find_nearest_idx c,
                nearest_last := find_nearest_idx c\<rparr>)
      else if dist_type = ''AD'' then
        Some ((initial_strategy c)\<lparr>distfun := find_ad_sorted c\<rparr>)
      else if dist_type = ''discrete'' then
        Some ((initial_strategy c)\<lparr>distfun := find_d_sorted_discrete c,
                dfun := find_d_sorted_discrete c, brent := brent_findmin_discrete c,
                nearest_first := (\<lambda>x val. find_nearest_idx_discrete c x val 1),
                nearest_last := (\<lambda>x val. find_nearest_idx_discrete c x val 0)\<rparr>)
      else None)"

subsection \<open>The trial generator\<close>

text \<open>
  One draw of a pair: two calls of \<^verbatim>\<open>np.random.rand()\<close>, the two lookups, and the two
  reads \<^verbatim>\<open>data[trial_xmin_idx]\<close>, \<^verbatim>\<open>data[trial_xmax_idx]\<close>, which raise
  \<^verbatim>\<open>IndexError\<close> out of range. The result is the pair of indices and the generator.
\<close>

definition draw_trial ::
  "'g collab \<Rightarrow> strategy \<Rightarrow> real list \<Rightarrow> real \<Rightarrow> real \<Rightarrow> 'g \<Rightarrow> py_error + nat \<times> nat \<times> 'g" where
  "draw_trial c s data log_xmin log_range g =
     (let (u1, g1) = random_rand c g;
          trial_xmin = exp (log_xmin + log_range * u1);
          (u2, g2) = random_rand c g1;
          trial_xmax = exp (log_xmin + log_range * u2);
          trial_xmin_idx = nearest_first s data trial_xmin;
          trial_xmax_idx = nearest_last s data trial_xmax
      in if trial_xmin_idx < length data \<and> trial_xmax_idx < length data
         then Inr (trial_xmin_idx, trial_xmax_idx, g2)
         else Inl IndexError)"

text \<open>The test of the \<^verbatim>\<open>while\<close> loop, on the snapped pair.\<close>

definition rejected :: "real list \<Rightarrow> nat \<Rightarrow> nat \<Rightarrow> bool" where
  "rejected data trial_xmin_idx trial_xmax_idx \<longleftrightarrow>
     int trial_xmax_idx - int trial_xmin_idx < 10
     \<or> data ! trial_xmax_idx < 2 * data ! trial_xmin_idx"

text \<open>
  The \<^verbatim>\<open>while\<close> loop has no iteration cap: \<open>None\<close> is the run that never leaves it.
\<close>

partial_function (option) rejection_loop ::
  "'g collab \<Rightarrow> strategy \<Rightarrow> real list \<Rightarrow> real \<Rightarrow> real \<Rightarrow> nat \<times> nat \<times> 'g
     \<Rightarrow> (py_error + nat \<times> nat \<times> 'g) option" where
  "rejection_loop c s data log_xmin log_range st =
     (if rejected data (fst st) (fst (snd st)) then
        (case draw_trial c s data log_xmin log_range (snd (snd st)) of
           Inl e \<Rightarrow> Some (Inl e)
         | Inr st' \<Rightarrow> rejection_loop c s data log_xmin log_range st')
      else Some (Inr st))"

definition gen_trial ::
  "'g collab \<Rightarrow> strategy \<Rightarrow> real list \<Rightarrow> real \<Rightarrow> real \<Rightarrow> 'g
     \<Rightarrow> (py_error + nat \<times> nat \<times> 'g) option" where
  "gen_trial c s data log_xmin log_range g =
     (case draw_trial c s data log_xmin log_range g of
        Inl e \<Rightarrow> Some (Inl e)
      | Inr st \<Rightarrow> rejection_loop c s data log_xmin log_range st)"

subsection \<open>The trial sweep\<close>

record batch =
  attempted_xmins :: "real list"
  attempted_xmaxs :: "real list"
  attempted_alphas :: "real list"
  attempted_ns :: "real list"
  attempted_pqs :: "real list"
  attempted_ds :: "real list"

definition initial_batch :: "nat \<Rightarrow> batch" where
  "initial_batch runs =
     \<lparr>attempted_xmins = replicate runs 1, attempted_xmaxs = replicate runs 1,
      attempted_alphas = replicate runs 1, attempted_ns = replicate runs 1,
      attempted_pqs = replicate runs 1, attempted_ds = replicate runs (10 ^ 12)\<rparr>"

text \<open>
  Lines 230 and 231: the approximate p-value from the value \<open>tmpd0\<close> that \<^verbatim>\<open>tmpd\<close> has
  after the \<^verbatim>\<open>if alpha_hat > 1\<close> statement, and the length \<open>n\<close> of the trimmed sample.
\<close>

definition trial_pq :: "real \<Rightarrow> nat \<Rightarrow> real" where
  "trial_pq tmpd0 n =
     (let tmpd = tmpd0 * sqrt (real n)
      in expfun (tmpd + 0.17 / sqrt (real n) + (tmpd - 1) / (4 * real n)) 10)"

text \<open>The rest of the body of the \<^verbatim>\<open>for\<close> loop, after the \<^verbatim>\<open>while\<close> loop, at index \<open>i\<close>.\<close>

definition record_trial :: "strategy \<Rightarrow> real list \<Rightarrow> nat \<Rightarrow> nat \<Rightarrow> nat \<Rightarrow> batch \<Rightarrow> batch" where
  "record_trial s data i trial_xmin_idx trial_xmax_idx b =
     (let trimmed = slice data trial_xmin_idx (trial_xmax_idx + 1);
          alpha_hat = brent s trimmed;
          tmpd = 1;
          (ds, tmpd) =
            (if alpha_hat > 1
             then ((attempted_ds b)[i := distfun s trimmed alpha_hat], dfun s trimmed alpha_hat)
             else (attempted_ds b, tmpd));
          n = length trimmed
      in \<lparr>attempted_xmins = (attempted_xmins b)[i := data ! trial_xmin_idx],
          attempted_xmaxs = (attempted_xmaxs b)[i := data ! trial_xmax_idx],
          attempted_alphas = (attempted_alphas b)[i := alpha_hat],
          attempted_ns = (attempted_ns b)[i := real n],
          attempted_pqs = (attempted_pqs b)[i := trial_pq tmpd n],
          attempted_ds = ds\<rparr>)"

fun sweep_loop ::
  "'g collab \<Rightarrow> strategy \<Rightarrow> real list \<Rightarrow> real \<Rightarrow> real \<Rightarrow> nat list \<Rightarrow> batch \<Rightarrow> 'g
     \<Rightarrow> (py_error + batch \<times> 'g) option" where
  "sweep_loop c s data log_xmin log_range [] b g = Some (Inr (b, g))"
| "sweep_loop c s data log_xmin log_range (i # is) b g =
     (case gen_trial c s data log_xmin log_range g of
        None \<Rightarrow> None
      | Some (Inl e) \<Rightarrow> Some (Inl e)
      | Some (Inr (trial_xmin_idx, trial_xmax_idx, g')) \<Rightarrow>
          sweep_loop c s data log_xmin log_range is
            (record_trial s data i trial_xmin_idx trial_xmax_idx b) g')"

text \<open>
  Lines 185 to 235 on the sorted data: \<^verbatim>\<open>data[0]\<close> raises \<^verbatim>\<open>IndexError\<close> on an empty
  array.
\<close>

definition trial_sweep ::
  "'g collab \<Rightarrow> strategy \<Rightarrow> real list \<Rightarrow> nat \<Rightarrow> 'g \<Rightarrow> (py_error + batch \<times> 'g) option" where
  "trial_sweep c s data runs g =
     (if data = [] then Some (Inl IndexError)
      else let log_xmin = ln (data ! 0);
               log_xmax = ln (last data);
               log_range = log_xmax - log_xmin
           in sweep_loop c s data log_xmin log_range [0..<runs] (initial_batch runs) g)"

subsection \<open>Filtering and selection\<close>

text \<open>
  Lines 238 to 295, on the batch of the sweep. The sum is the exception or the returned
  triple \<open>(xmin, xmax, alpha)\<close>.
\<close>

definition select_result ::
  "'g collab \<Rightarrow> real list \<Rightarrow> batch \<Rightarrow> real \<Rightarrow> real \<Rightarrow> nat \<Rightarrow> (real list \<Rightarrow> real \<Rightarrow> real) \<Rightarrow> bool
     \<Rightarrow> 'g \<Rightarrow> py_error + real \<times> real \<times> real" where
  "select_result c data b pqcrit pcrit pruns dfn calc_p g =
     (let idxs = np_where_gt (attempted_pqs b) pqcrit
      in if length idxs = 0 then
           (case np_argmax (attempted_pqs b) of
              Inl e \<Rightarrow> Inl e
            | Inr minidx \<Rightarrow>
                Inr (attempted_xmins b ! minidx, attempted_xmaxs b ! minidx,
                     attempted_alphas b ! minidx))
         else
           let possible_xmins = take_idx (attempted_xmins b) idxs;
               possible_xmaxs = take_idx (attempted_xmaxs b) idxs;
               possible_alphas = take_idx (attempted_alphas b) idxs;
               possible_pqs = take_idx (attempted_pqs b) idxs
           in case (if calc_p
                    then fst (find_p_core c data possible_xmins possible_xmaxs pruns dfn g)
                    else Inr possible_pqs) of
                Inl e \<Rightarrow> Inl e
              | Inr possible_ps \<Rightarrow>
                  let idxs2 = np_where_gt possible_ps pcrit
                  in if length idxs2 = 0 then
                       (case np_argmax possible_ps of
                          Inl e \<Rightarrow> Inl e
                        | Inr minidx \<Rightarrow>
                            Inr (possible_xmins ! minidx, possible_xmaxs ! minidx,
                                 possible_alphas ! minidx))
                     else
                       let possible_xmins2 = take_idx possible_xmins idxs2;
                           possible_xmaxs2 = take_idx possible_xmaxs idxs2;
                           possible_alphas2 = take_idx possible_alphas idxs2
                       in case np_argmax (map2 (/) possible_xmaxs2 possible_xmins2) of
                            Inl e \<Rightarrow> Inl e
                          | Inr minidx \<Rightarrow>
                              Inr (possible_xmins2 ! minidx, possible_xmaxs2 ! minidx,
                                   possible_alphas2 ! minidx))"

subsection \<open>find\_pl\_montecarlo\<close>

definition msg_discrete :: string where
  "msg_discrete = ''Error. Please ensure data is discretized in terms of step size before using discrete option. Returning.''"

definition msg_dist_type :: string where
  "msg_dist_type = ''Error. Please input a valid distance type (either KS, AD, or discrete)''"

text \<open>
  The result is \<open>None\<close> when the call never returns; otherwise the exception raised, or
  the lines printed and the value returned.
\<close>

definition find_pl_montecarlo ::
  "'g collab \<Rightarrow> real list \<Rightarrow> nat \<Rightarrow> real \<Rightarrow> real \<Rightarrow> nat \<Rightarrow> string \<Rightarrow> bool \<Rightarrow> 'g
     \<Rightarrow> (py_error + string list \<times> real \<times> real \<times> real) option" where
  "find_pl_montecarlo c data0 runs pqcrit pcrit0 pruns dist_type calc_p g =
     (let data = sort data0;
          defaults = (0, 0, 1);
          pcrit = (if calc_p = False then pqcrit else pcrit0)
      in case select_strategy c dist_type of
           None \<Rightarrow> Some (Inr ([msg_dist_type], defaults))
         | Some s \<Rightarrow>
             if dist_type = ''discrete'' \<and> list_ex (\<lambda>x. x < 1) data
             then Some (Inr ([msg_discrete], defaults))
             else (case trial_sweep c s data runs g of
                     None \<Rightarrow> None
                   | Some (Inl e) \<Rightarrow> Some (Inl e)
                   | Some (Inr (b, g1)) \<Rightarrow>
                       (case select_result c data b pqcrit pcrit pruns (dfun s) calc_p g1 of
                          Inl e \<Rightarrow> Some (Inl e)
                        | Inr r \<Rightarrow> Some (Inr ([], r)))))"

subsection \<open>find\_p\_wrap\<close>

datatype p_value = PValue real real | MinusOne

definition msg_not_implemented :: string where
  "msg_not_implemented = ''error. Discrete not implemented yet.''"

definition find_p_wrap ::
  "'g collab \<Rightarrow> real list \<Rightarrow> real \<Rightarrow> real \<Rightarrow> nat \<Rightarrow> bool \<Rightarrow> 'g
     \<Rightarrow> py_error + string list \<times> p_value" where
  "find_p_wrap c x xmin xmax runs discrete g =
     (if discrete = False then
        (case fst (find_true_p c (sort x) xmin xmax runs (find_d_sorted c) g) of
           Inl e \<Rightarrow> Inl e
         | Inr (p, sigp) \<Rightarrow> Inr ([], PValue p sigp))
      else Inr ([msg_not_implemented], MinusOne))"

subsection \<open>A concrete instance of the collaborators\<close>

text \<open>
  Used to evaluate the model on examples. The lookup returns the first position whose
  entry is nearest to the value; the generator state is a counter.
\<close>

fun nearest_scan :: "real list \<Rightarrow> real \<Rightarrow> nat \<Rightarrow> nat \<Rightarrow> real \<Rightarrow> nat" where
  "nearest_scan [] v i best bd = best"
| "nearest_scan (x # xs) v i best bd =
     (if \<bar>x - v\<bar> < bd then nearest_scan xs v (Suc i) i \<bar>x - v\<bar>
      else nearest_scan xs v (Suc i) best bd)"

definition nearest_idx :: "real list \<Rightarrow> real \<Rightarrow> nat" where
  "nearest_idx xs v = (case xs of [] \<Rightarrow> 0 | x # rest \<Rightarrow> nearest_scan rest v 1 0 \<bar>x - v\<bar>)"

definition sample_collab :: "nat collab" where
  "sample_collab =
     \<lparr>find_d_sorted = (\<lambda>xs alpha. if last xs > 2 then 1 / 10 else 1 / 20),
      find_ad_sorted = (\<lambda>xs alpha. 3),
      find_d_sorted_discrete = (\<lambda>xs alpha. 1 / 2),
      find_nearest_idx = nearest_idx,
      find_nearest_idx_discrete = (\<lambda>xs v flag. nearest_idx xs v),
      brent_findmin = (\<lambda>xs. 2),
      brent_findmin_discrete = (\<lambda>xs. 1 / 2),
      pl_gen = (\<lambda>n xmin xmax alpha g. (replicate n (if g < 1000 then xmax else xmin), Suc g)),
      random_rand = (\<lambda>g. (if even g then 0 else 1 / 2, Suc g))\<rparr>"

definition sample_data :: "real list" where
  "sample_data = [16, 1, 1, 1, 1, 1, 1, 1, 4, 1, 1, 1, 1, 1, 1, 1, 1]"

definition sample_sorted :: "real list" where
  "sample_sorted = [1, 1, 1, 1, 1, 1, 1, 1, 1, 1, 1, 1, 1, 1, 1, 4, 16]"

definition sample_discrete :: strategy where
  "sample_discrete =
     \<lparr>distfun = find_d_sorted_discrete sample_collab,
      dfun = find_d_sorted_discrete sample_collab,
      brent = brent_findmin_discrete sample_collab,
      nearest_first = (\<lambda>x val. find_nearest_idx_discrete sample_collab x val 1),
      nearest_last = (\<lambda>x val. find_nearest_idx_discrete sample_collab x val 0)\<rparr>"

definition sample_AD :: strategy where
  "sample_AD =
     \<lparr>distfun = find_ad_sorted sample_collab,
      dfun = find_d_sorted sample_collab,
      brent = brent_findmin sample_collab,
      nearest_first = find_nearest_idx sample_collab,
      nearest_last = find_nearest_idx sample_collab\<rparr>"

definition sample_batch_AD :: batch where
  "sample_batch_AD =
     \<lparr>attempted_xmins = [1, 1], attempted_xmaxs = [4, 4], attempted_alphas = [2, 2],
      attempted_ns = [16, 16],
      attempted_pqs = [trial_pq (1 / 10) 16, trial_pq (1 / 10) 16],
      attempted_ds = [3, 3]\<rparr>"

definition sample_batch :: batch where
  "sample_batch =
     \<lparr>attempted_xmins = [1, 1], attempted_xmaxs = [4, 4], attempted_alphas = [2, 2],
      attempted_ns = [16, 16],
      attempted_pqs = [trial_pq (1 / 10) 16, trial_pq (1 / 10) 16],
      attempted_ds = [1 / 10, 1 / 10]\<rparr>"

definition sample_batch_discrete :: batch where
  "sample_batch_discrete =
     \<lparr>attempted_xmins = [1, 1], attempted_xmaxs = [4, 4], attempted_alphas = [1 / 2, 1 / 2],
      attempted_ns = [16, 16],
      attempted_pqs = [trial_pq 1 16, trial_pq 1 16],
      attempted_ds = [10 ^ 12, 10 ^ 12]\<rparr>"

subsection \<open>Auxiliary notions for the statements\<close>

text \<open>
  Row \<open>i\<close> of a batch; the row that one trial with the snapped indices \<open>lo\<close>, \<open>hi\<close>
  writes; a pair of indices that leaves the \<^verbatim>\<open>while\<close> loop; the first position of the
  largest entry of a list.
\<close>

definition batch_row :: "batch \<Rightarrow> nat \<Rightarrow> real \<times> real \<times> real \<times> real \<times> real \<times> real" where
  "batch_row b i =
     (attempted_xmins b ! i, attempted_xmaxs b ! i, attempted_alphas b ! i, attempted_ns b ! i,
      attempted_pqs b ! i, attempted_ds b ! i)"

definition batch_len :: "batch \<Rightarrow> nat \<Rightarrow> bool" where
  "batch_len b runs \<longleftrightarrow>
     length (attempted_xmins b) = runs \<and> length (attempted_xmaxs b) = runs
     \<and> length (attempted_alphas b) = runs \<and> length (attempted_ns b) = runs
     \<and> length (attempted_pqs b) = runs \<and> length (attempted_ds b) = runs"

definition trial_row :: "strategy \<Rightarrow> real list \<Rightarrow> nat \<Rightarrow> nat \<Rightarrow> real \<times> real \<times> real \<times> real \<times> real \<times> real" where
  "trial_row s data lo hi =
     (let trimmed = slice data lo (hi + 1);
          alpha_hat = brent s trimmed;
          n = length trimmed
      in (data ! lo, data ! hi, alpha_hat, real n,
          trial_pq (if alpha_hat > 1 then dfun s trimmed alpha_hat else 1) n,
          if alpha_hat > 1 then distfun s trimmed alpha_hat else 10 ^ 12))"

definition accepted :: "real list \<Rightarrow> nat \<Rightarrow> nat \<Rightarrow> bool" where
  "accepted data lo hi \<longleftrightarrow> lo < length data \<and> hi < length data \<and> \<not> rejected data lo hi"

definition first_max :: "real list \<Rightarrow> nat \<Rightarrow> bool" where
  "first_max xs k \<longleftrightarrow>
     k < length xs \<and> (\<forall>j < length xs. xs ! j \<le> xs ! k) \<and> (\<forall>j < k. xs ! j < xs ! k)"


subsection \<open>The terms of the series\<close>

definition expfun_term :: "real \<Rightarrow> nat \<Rightarrow> real" where
  "expfun_term x i = exp (- 2 * (real i)\<^sup>2 * x\<^sup>2)"

subsection \<open>The synthetic distances of find\_true\_p\<close>

text \<open>
  The distances \<^verbatim>\<open>ds\<close> of the synthetic iterations of \<^verbatim>\<open>find_true_p\<close>, in order: what
  the specification counts.
\<close>

fun synth_ds ::
  "'g collab \<Rightarrow> (real list \<Rightarrow> real \<Rightarrow> real) \<Rightarrow> nat \<Rightarrow> real \<Rightarrow> real \<Rightarrow> real \<Rightarrow> nat \<Rightarrow> 'g
     \<Rightarrow> real list" where
  "synth_ds c dfn n xmin xmax alpha 0 g = []"
| "synth_ds c dfn n xmin xmax alpha (Suc k) g =
     (let (raw, g') = pl_gen c n xmin xmax alpha g;
          synth = sort raw;
          asynth = brent_findmin c synth
      in dfn synth asynth # synth_ds c dfn n xmin xmax alpha k g')"

definition sample_trimmed :: "real list" where
  "sample_trimmed = [1, 1, 1, 1, 1, 1, 1, 1, 1, 1, 1, 1, 1, 1, 1, 4]"

subsection \<open>The draws of the trial generator\<close>

text \<open>
  The result of draw number \<open>k\<close> (from 0) of the trial generator started on generator \<open>g\<close>:
  the draws before it thread the generator, and an \<^verbatim>\<open>IndexError\<close> of one of them ends the
  run.
\<close>

fun nth_draw ::
  "'g collab \<Rightarrow> strategy \<Rightarrow> real list \<Rightarrow> real \<Rightarrow> real \<Rightarrow> nat \<Rightarrow> 'g
     \<Rightarrow> py_error + nat \<times> nat \<times> 'g" where
  "nth_draw c s data log_xmin log_range 0 g = draw_trial c s data log_xmin log_range g"
| "nth_draw c s data log_xmin log_range (Suc k) g =
     (case draw_trial c s data log_xmin log_range g of
        Inl e \<Rightarrow> Inl e
      | Inr (lo, hi, g') \<Rightarrow> nth_draw c s data log_xmin log_range k g')"

definition ten_points :: "real list" where
  "ten_points = [1, 2, 3, 4, 5, 6, 7, 8, 9, 10]"

subsection \<open>The calls on a store of arrays\<close>

text \<open>
  For the effect of a call on the caller's array, arrays live in a store and are named by
  their address, an index into the store. \<^verbatim>\<open>np.sort\<close>, \<^verbatim>\<open>np.ones\<close> and
  \<^verbatim>\<open>1e12*np.ones\<close> allocate a new array; \<^verbatim>\<open>arr[i] = v\<close> writes into the array at the
  address of \<open>arr\<close>. Slices, index arrays and the arrays that the filtering stage builds
  are local to the call and never written, and are kept as values. A result is \<open>None\<close>
  when the call never returns, and otherwise the store at the end of the call with the
  exception or value.
\<close>

type_synonym store = "real list list"

definition alloc :: "store \<Rightarrow> real list \<Rightarrow> store \<times> nat" where
  "alloc h xs = (h @ [xs], length h)"

definition np_sort_at :: "store \<Rightarrow> nat \<Rightarrow> store \<times> nat" where
  "np_sort_at h a = alloc h (sort (h ! a))"

definition store_write :: "store \<Rightarrow> nat \<Rightarrow> nat \<Rightarrow> real \<Rightarrow> store" where
  "store_write h a i v = h[a := (h ! a)[i := v]]"

record batch_refs =
  xmins_at :: nat
  xmaxs_at :: nat
  alphas_at :: nat
  ns_at :: nat
  pqs_at :: nat
  ds_at :: nat

text \<open>Lines 185 to 190.\<close>

definition alloc_batch :: "store \<Rightarrow> nat \<Rightarrow> store \<times> batch_refs" where
  "alloc_batch h runs =
     (let (h, xmins) = alloc h (replicate runs 1);
          (h, xmaxs) = alloc h (replicate runs 1);
          (h, alphas) = alloc h (replicate runs 1);
          (h, ns) = alloc h (replicate runs 1);
          (h, pqs) = alloc h (replicate runs 1);
          (h, ds) = alloc h (replicate runs (10 ^ 12))
      in (h, \<lparr>xmins_at = xmins, xmaxs_at = xmaxs, alphas_at = alphas, ns_at = ns,
               pqs_at = pqs, ds_at = ds\<rparr>))"

definition load_batch :: "store \<Rightarrow> batch_refs \<Rightarrow> batch" where
  "load_batch h refs =
     \<lparr>attempted_xmins = h ! xmins_at refs, attempted_xmaxs = h ! xmaxs_at refs,
      attempted_alphas = h ! alphas_at refs, attempted_ns = h ! ns_at refs,
      attempted_pqs = h ! pqs_at refs, attempted_ds = h ! ds_at refs\<rparr>"

text \<open>Lines 215 to 235, with the sorted data at address \<open>d\<close>.\<close>

definition record_trial_at ::
  "strategy \<Rightarrow> store \<Rightarrow> nat \<Rightarrow> batch_refs \<Rightarrow> nat \<Rightarrow> nat \<Rightarrow> nat \<Rightarrow> store" where
  "record_trial_at s h d refs i trial_xmin_idx trial_xmax_idx =
     (let data = h ! d;
          trial_xmin = data ! trial_xmin_idx;
          trial_xmax = data ! trial_xmax_idx;
          trimmed = slice data trial_xmin_idx (trial_xmax_idx + 1);
          alpha_hat = brent s trimmed;
          tmpd = 1;
          (h, tmpd) =
            (if alpha_hat > 1
             then (store_write h (ds_at refs) i (distfun s trimmed alpha_hat),
                   dfun s trimmed alpha_hat)
             else (h, tmpd));
          n = length trimmed;
          h = store_write h (pqs_at refs) i (trial_pq tmpd n);
          h = store_write h (ns_at refs) i (real n);
          h = store_write h (alphas_at refs) i alpha_hat;
          h = store_write h (xmins_at refs) i trial_xmin;
          h = store_write h (xmaxs_at refs) i trial_xmax
      in h)"

fun sweep_loop_at ::
  "'g collab \<Rightarrow> strategy \<Rightarrow> store \<Rightarrow> nat \<Rightarrow> real \<Rightarrow> real \<Rightarrow> nat list \<Rightarrow> batch_refs \<Rightarrow> 'g
     \<Rightarrow> (store \<times> (py_error + 'g)) option" where
  "sweep_loop_at c s h d log_xmin log_range [] refs g = Some (h, Inr g)"
| "sweep_loop_at c s h d log_xmin log_range (i # is) refs g =
     (case gen_trial c s (h ! d) log_xmin log_range g of
        None \<Rightarrow> None
      | Some (Inl e) \<Rightarrow> Some (h, Inl e)
      | Some (Inr (trial_xmin_idx, trial_xmax_idx, g')) \<Rightarrow>
          sweep_loop_at c s (record_trial_at s h d refs i trial_xmin_idx trial_xmax_idx) d
            log_xmin log_range is refs g')"

definition find_pl_montecarlo_at ::
  "'g collab \<Rightarrow> store \<Rightarrow> nat \<Rightarrow> nat \<Rightarrow> real \<Rightarrow> real \<Rightarrow> nat \<Rightarrow> string \<Rightarrow> bool \<Rightarrow> 'g
     \<Rightarrow> (store \<times> (py_error + string list \<times> real \<times> real \<times> real)) option" where
  "find_pl_montecarlo_at c h0 a runs pqcrit pcrit0 pruns dist_type calc_p g =
     (let (h, d) = np_sort_at h0 a;
          defaults = (0, 0, 1);
          pcrit = (if calc_p = False then pqcrit else pcrit0)
      in case select_strategy c dist_type of
           None \<Rightarrow> Some (h, Inr ([msg_dist_type], defaults))
         | Some s \<Rightarrow>
             if dist_type = ''discrete'' \<and> list_ex (\<lambda>x. x < 1) (h ! d)
             then Some (h, Inr ([msg_discrete], defaults))
             else
               let (h, refs) = alloc_batch h runs
               in if h ! d = [] then Some (h, Inl IndexError)
                  else
                    let log_xmin = ln ((h ! d) ! 0);
                        log_xmax = ln (last (h ! d));
                        log_range = log_xmax - log_xmin
                    in case sweep_loop_at c s h d log_xmin log_range [0..<runs] refs g of
                         None \<Rightarrow> None
                       | Some (h, Inl e) \<Rightarrow> Some (h, Inl e)
                       | Some (h, Inr g1) \<Rightarrow>
                           (case select_result c (h ! d) (load_batch h refs) pqcrit pcrit pruns
                                   (dfun s) calc_p g1 of
                              Inl e \<Rightarrow> Some (h, Inl e)
                            | Inr r \<Rightarrow> Some (h, Inr ([], r))))"

definition find_p_wrap_at ::
  "'g collab \<Rightarrow> store \<Rightarrow> nat \<Rightarrow> real \<Rightarrow> real \<Rightarrow> nat \<Rightarrow> bool \<Rightarrow> 'g
     \<Rightarrow> store \<times> (py_error + string list \<times> p_value)" where
  "find_p_wrap_at c h0 a xmin xmax runs discrete g =
     (if discrete = False then
        (let (h, x) = np_sort_at h0 a
         in (h, case fst (find_true_p c (h ! x) xmin xmax runs (find_d_sorted c) g) of
                  Inl e \<Rightarrow> Inl e
                | Inr (p, sigp) \<Rightarrow> Inr ([], PValue p sigp)))
      else (h0, Inr ([msg_not_implemented], MinusOne)))"

text \<open>
  The addresses of a batch are six different arrays of the store, other than the data.
\<close>

definition refs_list :: "batch_refs \<Rightarrow> nat list" where
  "refs_list refs =
     [xmins_at refs, xmaxs_at refs, alphas_at refs, ns_at refs, pqs_at refs, ds_at refs]"

definition refs_ok :: "store \<Rightarrow> nat \<Rightarrow> batch_refs \<Rightarrow> bool" where
  "refs_ok h d refs \<longleftrightarrow>
     distinct (refs_list refs) \<and> list_all (\<lambda>x. x < length h \<and> x \<noteq> d) (refs_list refs)"

section \<open>Properties\<close>

subsection \<open>expfun computes its series\<close>

lemma expfun_loop_sum:
  "expfun_loop x is val = val + (\<Sum>i\<leftarrow>is. (- 1) ^ (i - 1) * exp (- 2 * (real i)\<^sup>2 * x\<^sup>2))"
  by (induction "is" arbitrary: val) (simp_all add: algebra_simps)

lemma expfun_eq_series: "expfun x m = expfun_series x m"
proof -
  have "[1..<m + 1] = [1..<Suc m]" by simp
  moreover have "set [1..<Suc m] = {1..m}" by auto
  ultimately have "(\<Sum>i\<leftarrow>[1..<m + 1]. (- 1) ^ (i - 1) * exp (- 2 * (real i)\<^sup>2 * x\<^sup>2))
      = (\<Sum>i = 1..m. (- 1) ^ (i - 1) * exp (- 2 * (real i)\<^sup>2 * x\<^sup>2))"
    by (metis (no_types, lifting) distinct_upt sum_list_distinct_conv_sum_set)
  then show ?thesis
    by (simp add: expfun_def expfun_series_def expfun_loop_sum)
qed

subsection \<open>Input validation\<close>

lemma select_strategy_None:
  "select_strategy c dist_type = None \<longleftrightarrow>
     dist_type \<noteq> ''KS'' \<and> dist_type \<noteq> ''AD'' \<and> dist_type \<noteq> ''discrete''"
  by (simp add: select_strategy_def)

text \<open>
  C9: a \<open>dist_type\<close> other than KS, AD and discrete prints the message about the
  distance type and returns \<open>(0, 0, 1)\<close>; so does, with its own message, the discrete
  mode on data with an entry below 1. No exception is raised on either path.
\<close>

theorem invalid_input_returns_sentinel:
  "(dist_type \<noteq> ''KS'' \<and> dist_type \<noteq> ''AD'' \<and> dist_type \<noteq> ''discrete'' \<longrightarrow>
      find_pl_montecarlo c data runs pqcrit pcrit pruns dist_type calc_p g
        = Some (Inr ([msg_dist_type], (0, 0, 1))))
   \<and> (dist_type = ''discrete'' \<and> (\<exists>x \<in> set data. x < 1) \<longrightarrow>
      find_pl_montecarlo c data runs pqcrit pcrit pruns dist_type calc_p g
        = Some (Inr ([msg_discrete], (0, 0, 1))))"
proof (intro conjI impI)
  assume "dist_type \<noteq> ''KS'' \<and> dist_type \<noteq> ''AD'' \<and> dist_type \<noteq> ''discrete''"
  then have "select_strategy c dist_type = None"
    by (simp add: select_strategy_None)
  then show "find_pl_montecarlo c data runs pqcrit pcrit pruns dist_type calc_p g
        = Some (Inr ([msg_dist_type], (0, 0, 1)))"
    by (simp add: find_pl_montecarlo_def)
next
  assume a: "dist_type = ''discrete'' \<and> (\<exists>x \<in> set data. x < 1)"
  then have "list_ex (\<lambda>x. x < 1) (sort data)"
    by (simp add: list_ex_iff)
  moreover from a obtain s where "select_strategy c dist_type = Some s"
    by (simp add: select_strategy_def)
  ultimately show "find_pl_montecarlo c data runs pqcrit pcrit pruns dist_type calc_p g
        = Some (Inr ([msg_discrete], (0, 0, 1)))"
    using a by (simp add: find_pl_montecarlo_def)
qed

theorem invalid_input_returns_sentinel_witness:
  "find_pl_montecarlo sample_collab sample_data 2 (7 / 20) (1 / 4) 100 ''XYZ'' True 0
     = Some (Inr ([msg_dist_type], (0, 0, 1)))
   \<and> find_pl_montecarlo sample_collab [3, 1 / 2, 2] 2 (7 / 20) (1 / 4) 100 ''discrete'' True 0
     = Some (Inr ([msg_discrete], (0, 0, 1)))"
  using invalid_input_returns_sentinel [of "''XYZ''" sample_collab sample_data 2 "7 / 20" "1 / 4" 100 True 0]
    invalid_input_returns_sentinel [of "''discrete''" sample_collab "[3, 1 / 2, 2]" 2 "7 / 20" "1 / 4" 100 True 0]
  by simp

subsection \<open>Bounds and values of expfun with ten terms\<close>

lemma upt_1_11: "[1..<10 + 1] = [1, 2, 3, 4, 5, 6, 7, 8, 9, 10::nat]"
  by (simp add: upt_conv_Cons)

lemma expfun_10_terms:
  "expfun x 10 = 2 * (expfun_term x 1 - expfun_term x 2 + expfun_term x 3 - expfun_term x 4 + expfun_term x 5 - expfun_term x 6 + expfun_term x 7 - expfun_term x 8 + expfun_term x 9 - expfun_term x 10)"
  unfolding expfun_def upt_1_11 by (simp add: expfun_term_def)

lemma expfun_term_antimono: "i \<le> j \<Longrightarrow> expfun_term x j \<le> expfun_term x i"
proof -
  assume "i \<le> j"
  then have "(real i)\<^sup>2 \<le> (real j)\<^sup>2" by simp
  then have "(real i)\<^sup>2 * x\<^sup>2 \<le> (real j)\<^sup>2 * x\<^sup>2"
    by (simp add: mult_right_mono)
  then show ?thesis by (simp add: expfun_term_def)
qed

lemma expfun_term_nonneg: "0 \<le> expfun_term x i" by (simp add: expfun_term_def)


lemma expfun_nonneg: "0 \<le> expfun x 10"
proof -
  have "expfun_term x 2 \<le> expfun_term x 1" "expfun_term x 4 \<le> expfun_term x 3" "expfun_term x 6 \<le> expfun_term x 5" "expfun_term x 8 \<le> expfun_term x 7" "expfun_term x 10 \<le> expfun_term x 9"
    by (simp_all add: expfun_term_antimono)
  then show ?thesis unfolding expfun_10_terms by argo
qed

lemma expfun_le_first: "expfun x 10 \<le> 2 * exp (- 2 * x\<^sup>2)"
proof -
  have "expfun_term x 3 \<le> expfun_term x 2" "expfun_term x 5 \<le> expfun_term x 4" "expfun_term x 7 \<le> expfun_term x 6" "expfun_term x 9 \<le> expfun_term x 8" "0 \<le> expfun_term x 10"
    by (simp_all add: expfun_term_antimono expfun_term_nonneg)
  moreover have "expfun_term x 1 = exp (- 2 * x\<^sup>2)" by (simp add: expfun_term_def)
  ultimately show ?thesis unfolding expfun_10_terms by argo
qed

lemma expfun_ge_two: "2 * (exp (- 2 * x\<^sup>2) - exp (- 8 * x\<^sup>2)) \<le> expfun x 10"
proof -
  have "expfun_term x 4 \<le> expfun_term x 3" "expfun_term x 6 \<le> expfun_term x 5" "expfun_term x 8 \<le> expfun_term x 7" "expfun_term x 10 \<le> expfun_term x 9"
    by (simp_all add: expfun_term_antimono)
  moreover have "expfun_term x 1 = exp (- 2 * x\<^sup>2)" "expfun_term x 2 = exp (- 8 * x\<^sup>2)" by (simp_all add: expfun_term_def)
  ultimately show ?thesis unfolding expfun_10_terms by argo
qed

lemma expfun_0: "expfun 0 10 = 0"
  by (simp add: expfun_10_terms expfun_term_def)

lemma exp_minus_18: "exp (- 18 :: real) < 1 / 2000"
proof -
  have e2: "(2::real) \<le> exp 1" using exp_ge_add_one_self [of "1::real"] by simp
  have "exp (18::real) = exp 1 ^ 18" by (simp add: exp_of_nat_mult [symmetric])
  moreover have "(2::real) ^ 18 \<le> exp 1 ^ 18" using e2 by (intro power_mono) simp_all
  ultimately have "(262144::real) \<le> exp 18" by simp
  then have "2000 < exp (18::real)" by linarith
  then have "1 / exp (18 :: real) < 1 / 2000"
    by (simp add: field_simps)
  then show ?thesis by (simp add: exp_minus field_simps)
qed

lemma expfun_3: "expfun 3 10 < 1 / 1000"
  using expfun_le_first [of 3] exp_minus_18 by simp

lemma expfun_tendsto_0: "((\<lambda>x. expfun x 10) \<longlongrightarrow> 0) at_top"
proof (rule tendsto_sandwich)
  show "\<forall>\<^sub>F x in at_top. 0 \<le> expfun x 10" by (simp add: expfun_nonneg)
  show "\<forall>\<^sub>F x in at_top. expfun x 10 \<le> 2 * exp (- 2 * x\<^sup>2)"
    using expfun_le_first by simp
  show "((\<lambda>x::real. 0::real) \<longlongrightarrow> 0) at_top" by simp
  have "filterlim (\<lambda>x::real. x\<^sup>2) at_top at_top"
    by (simp add: filterlim_pow_at_top filterlim_ident)
  then have "filterlim (\<lambda>x::real. 2 * x\<^sup>2) at_top at_top"
    using filterlim_tendsto_pos_mult_at_top [of "\<lambda>x. 2" 2 at_top "\<lambda>x::real. x\<^sup>2"]
    by simp
  then have "filterlim (\<lambda>x::real. - (2 * x\<^sup>2)) at_bot at_top"
    by (simp add: filterlim_uminus_at_top)
  then have "((\<lambda>x::real. exp (- (2 * x\<^sup>2))) \<longlongrightarrow> 0) at_top"
    by (rule filterlim_compose [OF exp_at_bot])
  then have "((\<lambda>x::real. 2 * exp (- (2 * x\<^sup>2))) \<longlongrightarrow> 2 * 0) at_top"
    by (intro tendsto_mult tendsto_const)
  then show "((\<lambda>x::real. 2 * exp (- 2 * x\<^sup>2)) \<longlongrightarrow> 0) at_top"
    by simp
qed

lemma expfun_not_increasing: "expfun 1 10 < expfun (1 / 2) 10"
proof -
  have a: "expfun 1 10 \<le> 2 * exp (- 2)" using expfun_le_first [of 1] by simp
  have b: "2 * (exp (- (1 / 2)) - exp (- 2)) \<le> expfun (1 / 2) 10"
    using expfun_ge_two [of "1 / 2"] by (simp add: power2_eq_square)
  have "(2::real) < exp (3 / 2)"
    using exp_ge_add_one_self [of "3 / 2 :: real"] by simp
  then have "2 * exp (- 2 :: real) < exp (3 / 2) * exp (- 2)"
    by simp
  also have "\<dots> = exp (- (1 / 2) :: real)"
    by (simp add: exp_add [symmetric])
  finally have "2 * exp (- 2 :: real) < exp (- (1 / 2))" .
  with a b show ?thesis by argo
qed


text \<open>
  C8, as the code has it: \<open>expfun 0 = 0\<close>; \<open>expfun\<close> lies between \<open>0\<close> and
  \<open>2 exp (- 2 x\<^sup>2)\<close>, so it tends to \<open>0\<close> for large arguments and \<open>expfun 3\<close> is below
  \<open>0.001\<close>; it is not increasing on \<open>[0, 2]\<close>, since \<open>expfun 1 < expfun (1/2)\<close>.
\<close>

theorem expfun_properties:
  "expfun 0 10 = 0
   \<and> expfun 1 10 < expfun (1 / 2) 10
   \<and> (\<forall>x. 0 \<le> expfun x 10 \<and> expfun x 10 \<le> 2 * exp (- 2 * x\<^sup>2))
   \<and> ((\<lambda>x. expfun x 10) \<longlongrightarrow> 0) at_top
   \<and> expfun 3 10 < 1 / 1000"
  using expfun_0 expfun_not_increasing expfun_nonneg expfun_le_first expfun_tendsto_0 expfun_3
  by blast

text \<open>
  C8 as the specification states it fails: \<open>expfun 3\<close> is not above \<open>0.999\<close>.
\<close>

theorem expfun_3_counterexample: "\<not> expfun 3 10 > 999 / 1000"
  using expfun_3 by simp

subsection \<open>The trial sweep\<close>

lemma draw_trial_in_range:
  "draw_trial c s data lx lr g = Inr (lo, hi, g') \<Longrightarrow> lo < length data \<and> hi < length data"
  by (auto simp: draw_trial_def Let_def split: prod.splits if_splits)

lemma rejection_loop_accepted_aux:
  assumes "rejection_loop c s data lx lr st = Some y"
  shows "fst st < length data \<and> fst (snd st) < length data \<longrightarrow>
     (\<forall>lo hi g'. y = Inr (lo, hi, g') \<longrightarrow> accepted data lo hi)"
  using assms
proof (induction rule: rejection_loop.raw_induct [rotated, consumes 1, case_names step])
  case (step f c s data lx lr st y)
  show ?case
  proof (intro impI allI)
    fix lo hi g'
    assume rng: "fst st < length data \<and> fst (snd st) < length data"
      and y: "y = Inr (lo, hi, g')"
    show "accepted data lo hi"
    proof (cases "rejected data (fst st) (fst (snd st))")
      case True
      with step(2) have c: "(case draw_trial c s data lx lr (snd (snd st)) of
           Inl e \<Rightarrow> Some (Inl e)
         | Inr st' \<Rightarrow> f c s data lx lr st') = Some y"
        by simp
      show ?thesis
      proof (cases "draw_trial c s data lx lr (snd (snd st))")
        case (Inl e)
        with c y show ?thesis by simp
      next
        case (Inr st')
        with c have r: "f c s data lx lr st' = Some y" by simp
        obtain a b g2 where st': "st' = (a, b, g2)" by (cases st') auto
        from Inr st' have "draw_trial c s data lx lr (snd (snd st)) = Inr (a, b, g2)"
          by simp
        then have "a < length data \<and> b < length data"
          by (rule draw_trial_in_range)
        with step(1) [OF r] st' y show ?thesis by simp
      qed
    next
      case False
      with step(2) have "y = Inr st" by simp
      with y have "st = (lo, hi, g')" by simp
      with False rng show ?thesis by (simp add: accepted_def)
    qed
  qed
qed

lemma rejection_loop_accepted:
  assumes "rejection_loop c s data lx lr st = Some (Inr (lo, hi, g'))"
    and "fst st < length data" "fst (snd st) < length data"
  shows "accepted data lo hi"
  using rejection_loop_accepted_aux [OF assms(1)] assms(2,3) by simp

lemma gen_trial_accepted:
  assumes "gen_trial c s data lx lr g = Some (Inr (lo, hi, g'))"
  shows "accepted data lo hi"
proof -
  from assms obtain st where d: "draw_trial c s data lx lr g = Inr st"
    and r: "rejection_loop c s data lx lr st = Some (Inr (lo, hi, g'))"
    by (auto simp: gen_trial_def split: sum.splits)
  obtain a b g2 where st: "st = (a, b, g2)" by (cases st) auto
  with d have "draw_trial c s data lx lr g = Inr (a, b, g2)" by simp
  then have "a < length data \<and> b < length data" by (rule draw_trial_in_range)
  with rejection_loop_accepted [OF r] st show ?thesis by simp
qed

lemma batch_len_initial: "batch_len (initial_batch runs) runs"
  by (simp add: batch_len_def initial_batch_def)

lemma batch_row_initial:
  "i < runs \<Longrightarrow> batch_row (initial_batch runs) i = (1, 1, 1, 1, 1, 10 ^ 12)"
  by (simp add: batch_row_def initial_batch_def)

lemma batch_len_record_trial:
  "batch_len b runs \<Longrightarrow> batch_len (record_trial s data i lo hi b) runs"
  by (simp add: batch_len_def record_trial_def Let_def split: prod.splits if_splits)

lemma batch_row_record_trial_other:
  "j \<noteq> i \<Longrightarrow> batch_row (record_trial s data i lo hi b) j = batch_row b j"
  by (simp add: batch_row_def record_trial_def Let_def split: prod.splits if_splits)

lemma batch_row_record_trial_same:
  assumes "batch_len b runs" "i < runs" "attempted_ds b ! i = 10 ^ 12"
  shows "batch_row (record_trial s data i lo hi b) i = trial_row s data lo hi"
  using assms
  by (simp add: batch_len_def batch_row_def record_trial_def trial_row_def Let_def
      split: prod.splits if_splits)

lemma sweep_loop_rows:
  assumes "sweep_loop c s data lx lr is b g = Some (Inr (b', g'))"
    and "distinct is" "\<forall>i \<in> set is. i < runs \<and> attempted_ds b ! i = 10 ^ 12"
    and "batch_len b runs"
  shows "batch_len b' runs
     \<and> (\<forall>i \<in> set is. \<exists>lo hi. accepted data lo hi \<and> batch_row b' i = trial_row s data lo hi)
     \<and> (\<forall>j. j \<notin> set is \<longrightarrow> batch_row b' j = batch_row b j)"
  using assms
proof (induction "is" arbitrary: b g)
  case Nil
  then show ?case by simp
next
  case (Cons i "is")
  from Cons.prems(1) obtain lo hi g1 where
    gt: "gen_trial c s data lx lr g = Some (Inr (lo, hi, g1))"
    and rest: "sweep_loop c s data lx lr is (record_trial s data i lo hi b) g1 = Some (Inr (b', g'))"
    by (auto split: option.splits sum.splits prod.splits)
  let ?b1 = "record_trial s data i lo hi b"
  have acc: "accepted data lo hi" using gt by (rule gen_trial_accepted)
  have len1: "batch_len ?b1 runs" using Cons.prems(4) by (rule batch_len_record_trial)
  have i: "i < runs" "attempted_ds b ! i = 10 ^ 12" "i \<notin> set is" "distinct is"
    using Cons.prems(2,3) by auto
  have ds1: "\<forall>j \<in> set is. j < runs \<and> attempted_ds ?b1 ! j = 10 ^ 12"
  proof
    fix j assume j: "j \<in> set is"
    with i have "j \<noteq> i" by auto
    then have "batch_row ?b1 j = batch_row b j" by (rule batch_row_record_trial_other)
    then have "attempted_ds ?b1 ! j = attempted_ds b ! j" by (simp add: batch_row_def)
    with j Cons.prems(3) show "j < runs \<and> attempted_ds ?b1 ! j = 10 ^ 12" by simp
  qed
  note IH = Cons.IH [OF rest i(4) ds1 len1]
  have row_i: "batch_row b' i = trial_row s data lo hi"
    using IH i(3) batch_row_record_trial_same [OF Cons.prems(4) i(1) i(2)] by simp
  show ?case
  proof (intro conjI ballI allI impI)
    show "batch_len b' runs" using IH by simp
  next
    fix j assume "j \<in> set (i # is)"
    then show "\<exists>lo hi. accepted data lo hi \<and> batch_row b' j = trial_row s data lo hi"
      using IH row_i acc by auto
  next
    fix j assume "j \<notin> set (i # is)"
    then have "j \<notin> set is" "j \<noteq> i" by auto
    then show "batch_row b' j = batch_row b j"
      using IH batch_row_record_trial_other [of j i] by simp
  qed
qed

lemma trial_sweep_rows:
  assumes "trial_sweep c s data runs g = Some (Inr (b, g'))"
  shows "batch_len b runs"
    and "i < runs \<Longrightarrow> \<exists>lo hi. accepted data lo hi \<and> batch_row b i = trial_row s data lo hi"
proof -
  from assms have ne: "data \<noteq> []" by (auto simp: trial_sweep_def split: if_splits)
  with assms have sl: "sweep_loop c s data (ln (data ! 0)) (ln (last data) - ln (data ! 0))
      [0..<runs] (initial_batch runs) g = Some (Inr (b, g'))"
    by (simp add: trial_sweep_def Let_def)
  have pre: "\<forall>i \<in> set [0..<runs]. i < runs \<and> attempted_ds (initial_batch runs) ! i = 10 ^ 12"
    by (simp add: initial_batch_def)
  note r = sweep_loop_rows [OF sl distinct_upt pre batch_len_initial]
  show "batch_len b runs" using r by simp
  show "i < runs \<Longrightarrow> \<exists>lo hi. accepted data lo hi \<and> batch_row b i = trial_row s data lo hi"
    using r by simp
qed

subsection \<open>argmax, where and index arrays\<close>

lemma argmax_scan_first_max:
  assumes "length pre = i" "best < i" "first_max pre best" "bv = pre ! best"
  shows "first_max (pre @ xs) (argmax_scan xs i best bv)"
  using assms
proof (induction xs arbitrary: pre i best bv)
  case Nil
  then show ?case by simp
next
  case (Cons x xs)
  let ?pre = "pre @ [x]"
  have len: "length ?pre = Suc i" using Cons.prems(1) by simp
  show ?case
  proof (cases "x > bv")
    case True
    have fm: "first_max ?pre i"
      unfolding first_max_def
    proof (intro conjI allI impI)
      show "i < length ?pre" using len by simp
    next
      fix j assume "j < length ?pre"
      then have "j < i \<or> j = i" using len by auto
      then show "?pre ! j \<le> ?pre ! i"
      proof
        assume j: "j < i"
        then have "pre ! j \<le> pre ! best"
          using Cons.prems(1,3) by (simp add: first_max_def)
        with j True Cons.prems(1,4) show ?thesis by (simp add: nth_append)
      next
        assume "j = i" then show ?thesis by simp
      qed
    next
      fix j assume j: "j < i"
      then have "pre ! j \<le> pre ! best"
        using Cons.prems(1,3) by (simp add: first_max_def)
      with j True Cons.prems(1,4) show "?pre ! j < ?pre ! i" by (simp add: nth_append)
    qed
    have "first_max (?pre @ xs) (argmax_scan xs (Suc i) i x)"
      by (rule Cons.IH [OF len _ fm]) (use Cons.prems(1) in \<open>simp_all add: nth_append\<close>)
    with True show ?thesis by simp
  next
    case False
    have fm: "first_max ?pre best"
      unfolding first_max_def
    proof (intro conjI allI impI)
      show "best < length ?pre" using len Cons.prems(2) by simp
    next
      fix j assume "j < length ?pre"
      then have "j < i \<or> j = i" using len by auto
      then show "?pre ! j \<le> ?pre ! best"
      proof
        assume j: "j < i"
        then have "pre ! j \<le> pre ! best"
          using Cons.prems(1,3) by (simp add: first_max_def)
        with j Cons.prems(1,2) show ?thesis by (simp add: nth_append)
      next
        assume "j = i"
        with False Cons.prems(1,2,4) show ?thesis by (simp add: nth_append)
      qed
    next
      fix j assume j: "j < best"
      then have "pre ! j < pre ! best"
        using Cons.prems(3) by (simp add: first_max_def)
      with j Cons.prems(1,2) show "?pre ! j < ?pre ! best" by (simp add: nth_append)
    qed
    have "first_max (?pre @ xs) (argmax_scan xs (Suc i) best bv)"
      by (rule Cons.IH [OF len _ fm]) (use Cons.prems(1,2,4) in \<open>simp_all add: nth_append\<close>)
    with False show ?thesis by simp
  qed
qed

lemma np_argmax_first_max:
  assumes "xs \<noteq> []"
  shows "\<exists>k. np_argmax xs = Inr k \<and> first_max xs k"
proof -
  from assms obtain x rest where xs: "xs = x # rest" by (cases xs) auto
  have "first_max ([x] @ rest) (argmax_scan rest 1 0 x)"
    by (rule argmax_scan_first_max) (simp_all add: first_max_def)
  with xs show ?thesis by (simp add: np_argmax_def)
qed

lemma np_argmax_empty: "np_argmax [] = Inl ValueError"
  by (simp add: np_argmax_def)

lemma set_np_where_gt: "set (np_where_gt xs t) = {i. i < length xs \<and> xs ! i > t}"
  by (auto simp: np_where_gt_def)

lemma sorted_np_where_gt: "sorted_wrt (<) (np_where_gt xs t)"
  unfolding np_where_gt_def by (rule sorted_wrt_filter) (simp add: sorted_wrt_upt)

lemma nth_np_where_gt:
  "k < length (np_where_gt xs t) \<Longrightarrow>
     np_where_gt xs t ! k < length xs \<and> xs ! (np_where_gt xs t ! k) > t"
  using set_np_where_gt [of xs t] nth_mem [of k "np_where_gt xs t"] by blast

lemma length_take_idx [simp]: "length (take_idx xs idxs) = length idxs"
  by (simp add: take_idx_def)

lemma nth_take_idx [simp]: "k < length idxs \<Longrightarrow> take_idx xs idxs ! k = xs ! (idxs ! k)"
  by (simp add: take_idx_def)

lemma np_where_gt_all:
  assumes "\<forall>k < length xs. xs ! k > t"
  shows "np_where_gt xs t = [0..<length xs]"
  unfolding np_where_gt_def using assms by (intro filter_True) simp

lemma take_idx_upt: "take_idx xs [0..<length xs] = xs"
  by (simp add: take_idx_def map_nth)

subsection \<open>The sample run\<close>

lemma sort_sample_data: "sort sample_data = sample_sorted"
  by (simp add: sample_data_def sample_sorted_def)

lemma exp_half_ln_16: "exp (ln 16 / 2) = (4::real)"
proof -
  have "ln (16::real) = 2 * ln 4" using ln_realpow [of 4 2] by simp
  then show ?thesis by simp
qed

lemma sample_strategy_KS:
  "select_strategy sample_collab ''KS'' = Some (initial_strategy sample_collab)"
  by (simp add: select_strategy_def initial_strategy_def)

lemma sample_strategy_discrete:
  "select_strategy sample_collab ''discrete'' = Some sample_discrete"
  by (simp add: select_strategy_def initial_strategy_def sample_discrete_def)

lemma sample_nearest:
  "nearest_first (initial_strategy sample_collab) = nearest_idx"
  "nearest_last (initial_strategy sample_collab) = nearest_idx"
  "nearest_first sample_discrete = nearest_idx"
  "nearest_last sample_discrete = nearest_idx"
  by (simp_all add: initial_strategy_def sample_discrete_def sample_collab_def)

lemma nearest_idx_sample: "nearest_idx sample_sorted 1 = 0" "nearest_idx sample_sorted 4 = 15"
  by (simp_all add: nearest_idx_def sample_sorted_def)

lemma sample_sorted_facts:
  "length sample_sorted = 17" "sample_sorted ! 0 = 1" "sample_sorted ! 15 = 4"
  "length (slice sample_sorted 0 16) = 16" "sample_sorted \<noteq> []" "last sample_sorted = 16"
  "last (slice sample_sorted 0 16) = 4"
  by (simp_all add: sample_sorted_def slice_def)

lemma sample_draw:
  assumes "even g" "nearest_first s = nearest_idx" "nearest_last s = nearest_idx"
  shows "draw_trial sample_collab s sample_sorted 0 (ln 16) g = Inr (0, 15, Suc (Suc g))"
  using assms
  by (simp add: draw_trial_def sample_collab_def exp_half_ln_16 nearest_idx_sample
      sample_sorted_facts)

lemma sample_not_rejected: "\<not> rejected sample_sorted 0 15"
  by (simp add: rejected_def sample_sorted_facts)

lemma sample_gen_trial:
  assumes "even g" "nearest_first s = nearest_idx" "nearest_last s = nearest_idx"
  shows "gen_trial sample_collab s sample_sorted 0 (ln 16) g = Some (Inr (0, 15, Suc (Suc g)))"
  by (simp add: gen_trial_def sample_draw [OF assms] rejection_loop.simps sample_not_rejected)

lemma sample_record:
  "record_trial (initial_strategy sample_collab) sample_sorted i 0 15 b
     = \<lparr>attempted_xmins = (attempted_xmins b)[i := 1],
        attempted_xmaxs = (attempted_xmaxs b)[i := 4],
        attempted_alphas = (attempted_alphas b)[i := 2],
        attempted_ns = (attempted_ns b)[i := 16],
        attempted_pqs = (attempted_pqs b)[i := trial_pq (1 / 10) 16],
        attempted_ds = (attempted_ds b)[i := 1 / 10]\<rparr>"
  by (simp add: record_trial_def initial_strategy_def sample_collab_def sample_sorted_facts)

lemma sample_record_discrete:
  "record_trial sample_discrete sample_sorted i 0 15 b
     = \<lparr>attempted_xmins = (attempted_xmins b)[i := 1],
        attempted_xmaxs = (attempted_xmaxs b)[i := 4],
        attempted_alphas = (attempted_alphas b)[i := 1 / 2],
        attempted_ns = (attempted_ns b)[i := 16],
        attempted_pqs = (attempted_pqs b)[i := trial_pq 1 16],
        attempted_ds = attempted_ds b\<rparr>"
  by (simp add: record_trial_def sample_discrete_def sample_collab_def sample_sorted_facts)

lemma upt_2: "[0..<2] = [0, Suc 0]"
  by (simp add: upt_conv_Cons)

lemma replicate_2: "replicate 2 x = [x, x]"
  by (simp add: numeral_2_eq_2)

lemma sample_sweep:
  "even g \<Longrightarrow>
   trial_sweep sample_collab (initial_strategy sample_collab) sample_sorted 2 g
     = Some (Inr (sample_batch, g + 4))"
  by (simp add: trial_sweep_def sample_sorted_facts sample_gen_trial sample_nearest
      sample_record initial_batch_def sample_batch_def upt_2 replicate_2)

lemma sample_sweep_discrete:
  "even g \<Longrightarrow>
   trial_sweep sample_collab sample_discrete sample_sorted 2 g
     = Some (Inr (sample_batch_discrete, g + 4))"
  by (simp add: trial_sweep_def sample_sorted_facts sample_gen_trial sample_nearest
      sample_record_discrete initial_batch_def sample_batch_discrete_def upt_2 replicate_2)

lemma sqrt_16: "sqrt 16 = 4"
  using real_sqrt_abs [of 4] by simp

lemma sample_pq_high: "trial_pq (1 / 10) 16 > 7 / 20"
proof -
  let ?x = "693 / 1600 :: real"
  have x: "trial_pq (1 / 10) 16 = expfun ?x 10"
    by (simp add: trial_pq_def sqrt_16)
  have a: "1 + (- 2 * ?x\<^sup>2) \<le> exp (- 2 * ?x\<^sup>2)" by (rule exp_ge_add_one_self)
  have "1 + 8 * ?x\<^sup>2 \<le> exp (8 * ?x\<^sup>2)" by (rule exp_ge_add_one_self)
  then have "1 / exp (8 * ?x\<^sup>2) \<le> 1 / (1 + 8 * ?x\<^sup>2)"
    by (intro divide_left_mono) (simp_all add: power2_eq_square)
  then have b: "exp (- 8 * ?x\<^sup>2) \<le> 1 / (1 + 8 * ?x\<^sup>2)"
    by (simp add: exp_minus field_simps)
  have "7 / 20 < 2 * ((1 + (- 2 * ?x\<^sup>2)) - 1 / (1 + 8 * ?x\<^sup>2))"
    by (simp add: power2_eq_square)
  also have "\<dots> \<le> 2 * (exp (- 2 * ?x\<^sup>2) - exp (- 8 * ?x\<^sup>2))"
    using a b by simp
  also have "\<dots> \<le> expfun ?x 10" by (rule expfun_ge_two)
  finally show ?thesis using x by simp
qed

lemma sample_pq_low: "trial_pq 1 16 < 7 / 20"
proof -
  let ?x = "6543 / 1600 :: real"
  have x: "trial_pq 1 16 = expfun ?x 10"
    by (simp add: trial_pq_def sqrt_16)
  have "1 + 2 * ?x\<^sup>2 \<le> exp (2 * ?x\<^sup>2)" by (rule exp_ge_add_one_self)
  then have "1 / exp (2 * ?x\<^sup>2) \<le> 1 / (1 + 2 * ?x\<^sup>2)"
    by (intro divide_left_mono) (simp_all add: power2_eq_square)
  then have b: "exp (- 2 * ?x\<^sup>2) \<le> 1 / (1 + 2 * ?x\<^sup>2)"
    by (simp add: exp_minus field_simps)
  have "expfun ?x 10 \<le> 2 * exp (- 2 * ?x\<^sup>2)" by (rule expfun_le_first)
  also have "\<dots> \<le> 2 * (1 / (1 + 2 * ?x\<^sup>2))" using b by simp
  also have "\<dots> < 7 / 20" by (simp add: power2_eq_square)
  finally show ?thesis using x by simp
qed

subsection \<open>Recorded trials\<close>

lemmas sample_sweep_0 = sample_sweep [of 0, simplified]
lemmas sample_sweep_discrete_0 = sample_sweep_discrete [of 0, simplified]


text \<open>
  C2: every trial recorded by the sweep (lines 198 to 235 of \<^verbatim>\<open>find_pl_montecarlo\<close>, on
  any data on which the sweep returns) was snapped to two indices of the data array that
  are at least 10 apart, and the recorded \<open>xmax\<close> is at least twice the recorded
  \<open>xmin\<close>; both are the data values at those indices.
\<close>

theorem recorded_trials_satisfy_constraints:
  assumes "trial_sweep c s data runs g = Some (Inr (b, g'))" and "i < runs"
  shows "\<exists>trial_xmin_idx trial_xmax_idx.
           trial_xmin_idx < length data \<and> trial_xmax_idx < length data
           \<and> attempted_xmins b ! i = data ! trial_xmin_idx
           \<and> attempted_xmaxs b ! i = data ! trial_xmax_idx
           \<and> int trial_xmax_idx - int trial_xmin_idx \<ge> 10
           \<and> attempted_xmaxs b ! i \<ge> 2 * attempted_xmins b ! i"
proof -
  from trial_sweep_rows(2) [OF assms] obtain lo hi where
    acc: "accepted data lo hi" and row: "batch_row b i = trial_row s data lo hi"
    by blast
  from row have "attempted_xmins b ! i = data ! lo" "attempted_xmaxs b ! i = data ! hi"
    by (simp_all add: batch_row_def trial_row_def Let_def)
  with acc show ?thesis
    by (rule_tac exI [of _ lo], rule_tac exI [of _ hi])
      (simp add: accepted_def rejected_def not_less)
qed

theorem recorded_trials_satisfy_constraints_witness:
  "\<exists>trial_xmin_idx trial_xmax_idx.
     trial_xmin_idx < length sample_sorted \<and> trial_xmax_idx < length sample_sorted
     \<and> attempted_xmins sample_batch ! 1 = sample_sorted ! trial_xmin_idx
     \<and> attempted_xmaxs sample_batch ! 1 = sample_sorted ! trial_xmax_idx
     \<and> int trial_xmax_idx - int trial_xmin_idx \<ge> 10
     \<and> attempted_xmaxs sample_batch ! 1 \<ge> 2 * attempted_xmins sample_batch ! 1"
  using recorded_trials_satisfy_constraints [OF sample_sweep_0, of 1] by simp

lemma select_strategy_funs:
  assumes "select_strategy c dist_type = Some s"
  shows "dfun s = (if dist_type = ''discrete'' then find_d_sorted_discrete c else find_d_sorted c)"
    and "distfun s = (if dist_type = ''AD'' then find_ad_sorted c else dfun s)"
  using assms by (auto simp: select_strategy_def initial_strategy_def split: if_splits)

lemma sample_strategy_AD: "select_strategy sample_collab ''AD'' = Some sample_AD"
  by (simp add: select_strategy_def initial_strategy_def sample_AD_def)

lemma sample_nearest_AD:
  "nearest_first sample_AD = nearest_idx" "nearest_last sample_AD = nearest_idx"
  by (simp_all add: sample_AD_def sample_collab_def)

lemma sample_record_AD:
  "record_trial sample_AD sample_sorted i 0 15 b
     = \<lparr>attempted_xmins = (attempted_xmins b)[i := 1],
        attempted_xmaxs = (attempted_xmaxs b)[i := 4],
        attempted_alphas = (attempted_alphas b)[i := 2],
        attempted_ns = (attempted_ns b)[i := 16],
        attempted_pqs = (attempted_pqs b)[i := trial_pq (1 / 10) 16],
        attempted_ds = (attempted_ds b)[i := 3]\<rparr>"
  by (simp add: record_trial_def sample_AD_def sample_collab_def sample_sorted_facts)

lemma sample_sweep_AD:
  "even g \<Longrightarrow>
   trial_sweep sample_collab sample_AD sample_sorted 2 g = Some (Inr (sample_batch_AD, g + 4))"
  by (simp add: trial_sweep_def sample_sorted_facts sample_gen_trial sample_nearest_AD
      sample_record_AD initial_batch_def sample_batch_AD_def upt_2 replicate_2)

lemmas sample_sweep_AD_0 = sample_sweep_AD [of 0, simplified]

lemma sample_pq_AD: "trial_pq 3 16 < 7 / 20"
proof -
  let ?x = "19543 / 1600 :: real"
  have x: "trial_pq 3 16 = expfun ?x 10"
    by (simp add: trial_pq_def sqrt_16)
  have "1 + 2 * ?x\<^sup>2 \<le> exp (2 * ?x\<^sup>2)" by (rule exp_ge_add_one_self)
  then have "1 / exp (2 * ?x\<^sup>2) \<le> 1 / (1 + 2 * ?x\<^sup>2)"
    by (intro divide_left_mono) (simp_all add: power2_eq_square)
  then have b: "exp (- 2 * ?x\<^sup>2) \<le> 1 / (1 + 2 * ?x\<^sup>2)"
    by (simp add: exp_minus field_simps)
  have "expfun ?x 10 \<le> 2 * exp (- 2 * ?x\<^sup>2)" by (rule expfun_le_first)
  also have "\<dots> \<le> 2 * (1 / (1 + 2 * ?x\<^sup>2))" using b by simp
  also have "\<dots> < 7 / 20" by (simp add: power2_eq_square)
  finally show ?thesis using x by simp
qed

text \<open>
  C6, as the code has it: the approximate p-value recorded for a trial is \<open>expfun\<close> at
  \<open>z + 0.17 / sqrt n + (z - 1) / (4 n)\<close> with \<open>z = d sqrt n\<close>, where \<open>n\<close> is the length of
  the trimmed sample and \<open>d\<close> is the value of \<^verbatim>\<open>tmpd\<close>. For a fitted exponent above 1,
  \<open>d\<close> is \<^verbatim>\<open>find_d_sorted(trimmed, alpha_hat)\<close> for the distance types \<^verbatim>\<open>KS\<close> and \<^verbatim>\<open>AD\<close>
  and \<^verbatim>\<open>find_d_sorted_discrete(trimmed, alpha_hat)\<close> for \<^verbatim>\<open>discrete\<close>; the distance
  recorded in \<^verbatim>\<open>attempted_ds\<close> is this \<open>d\<close> for \<^verbatim>\<open>KS\<close> and \<^verbatim>\<open>discrete\<close>, and
  \<^verbatim>\<open>find_ad_sorted(trimmed, alpha_hat)\<close> for \<^verbatim>\<open>AD\<close>. For a fitted exponent of at most 1,
  \<open>d\<close> is 1 and the recorded distance is still \<open>10\<^sup>1\<^sup>2\<close>. \<open>expfun\<close> with ten terms is
  twice the alternating sum of \<open>exp (- 2 k\<^sup>2 x\<^sup>2)\<close> for \<open>k\<close> from 1 to 10.
\<close>

theorem approx_p_formula:
  assumes "select_strategy c dist_type = Some s"
    and "trial_sweep c s data runs g = Some (Inr (b, g'))" and "i < runs"
  shows "\<exists>trial_xmin_idx trial_xmax_idx trimmed alpha_hat d n z.
           attempted_xmins b ! i = data ! trial_xmin_idx
           \<and> attempted_xmaxs b ! i = data ! trial_xmax_idx
           \<and> trimmed = slice data trial_xmin_idx (trial_xmax_idx + 1)
           \<and> alpha_hat = attempted_alphas b ! i
           \<and> n = length trimmed
           \<and> attempted_ns b ! i = real n
           \<and> d = (if alpha_hat > 1
                  then (if dist_type = ''discrete''
                        then find_d_sorted_discrete c trimmed alpha_hat
                        else find_d_sorted c trimmed alpha_hat)
                  else 1)
           \<and> attempted_ds b ! i
               = (if alpha_hat > 1
                  then (if dist_type = ''AD'' then find_ad_sorted c trimmed alpha_hat else d)
                  else 10 ^ 12)
           \<and> z = d * sqrt (real n)
           \<and> attempted_pqs b ! i = expfun (z + 0.17 / sqrt (real n) + (z - 1) / (4 * real n)) 10
           \<and> expfun (z + 0.17 / sqrt (real n) + (z - 1) / (4 * real n)) 10
               = 2 * (\<Sum>k = 1..10. (- 1) ^ (k - 1)
                        * exp (- 2 * (real k)\<^sup>2
                               * (z + 0.17 / sqrt (real n) + (z - 1) / (4 * real n))\<^sup>2))"
proof -
  from trial_sweep_rows(2) [OF assms(2,3)] obtain lo hi where
    row: "batch_row b i = trial_row s data lo hi"
    by blast
  let ?tr = "slice data lo (hi + 1)"
  let ?a = "attempted_alphas b ! i"
  let ?d = "if ?a > 1
            then (if dist_type = ''discrete'' then find_d_sorted_discrete c ?tr ?a
                  else find_d_sorted c ?tr ?a)
            else 1"
  note sf = select_strategy_funs [OF assms(1)]
  from row have f: "attempted_xmins b ! i = data ! lo" "attempted_xmaxs b ! i = data ! hi"
    "?a = brent s ?tr" "attempted_ns b ! i = real (length ?tr)"
    "attempted_pqs b ! i = trial_pq (if brent s ?tr > 1 then dfun s ?tr (brent s ?tr) else 1) (length ?tr)"
    "attempted_ds b ! i = (if brent s ?tr > 1 then distfun s ?tr (brent s ?tr) else 10 ^ 12)"
    by (simp_all add: batch_row_def trial_row_def Let_def)
  have d: "(if brent s ?tr > 1 then dfun s ?tr (brent s ?tr) else 1) = ?d"
    using f(3) sf(1) by simp
  have ds: "attempted_ds b ! i
      = (if ?a > 1 then (if dist_type = ''AD'' then find_ad_sorted c ?tr ?a else ?d) else 10 ^ 12)"
    using f(3,6) sf by simp
  have "attempted_pqs b ! i = trial_pq ?d (length ?tr)" using f(5) d by simp
  then have pq: "attempted_pqs b ! i
      = expfun (?d * sqrt (real (length ?tr)) + 0.17 / sqrt (real (length ?tr))
                + (?d * sqrt (real (length ?tr)) - 1) / (4 * real (length ?tr))) 10"
    by (simp add: trial_pq_def Let_def)
  have ser: "expfun x 10 = 2 * (\<Sum>k = 1..10. (- 1) ^ (k - 1) * exp (- 2 * (real k)\<^sup>2 * x\<^sup>2))"
    for x
    by (simp only: expfun_eq_series expfun_series_def)
  show ?thesis
    apply (rule exI [of _ lo], rule exI [of _ hi], rule exI [of _ ?tr], rule exI [of _ ?a],
        rule exI [of _ ?d], rule exI [of _ "length ?tr"],
        rule exI [of _ "?d * sqrt (real (length ?tr))"])
    apply (intro conjI refl f(1,2,4) ds pq ser)
    done
qed

theorem approx_p_formula_witness:
  "(\<exists>trial_xmin_idx trial_xmax_idx trimmed alpha_hat d n z.
      attempted_xmins sample_batch_AD ! 0 = sample_sorted ! trial_xmin_idx
      \<and> attempted_xmaxs sample_batch_AD ! 0 = sample_sorted ! trial_xmax_idx
      \<and> trimmed = slice sample_sorted trial_xmin_idx (trial_xmax_idx + 1)
      \<and> alpha_hat = attempted_alphas sample_batch_AD ! 0
      \<and> n = length trimmed
      \<and> attempted_ns sample_batch_AD ! 0 = real n
      \<and> d = (if alpha_hat > 1
             then (if ''AD'' = ''discrete''
                   then find_d_sorted_discrete sample_collab trimmed alpha_hat
                   else find_d_sorted sample_collab trimmed alpha_hat)
             else 1)
      \<and> attempted_ds sample_batch_AD ! 0
          = (if alpha_hat > 1
             then (if ''AD'' = ''AD'' then find_ad_sorted sample_collab trimmed alpha_hat else d)
             else 10 ^ 12)
      \<and> z = d * sqrt (real n)
      \<and> attempted_pqs sample_batch_AD ! 0
          = expfun (z + 0.17 / sqrt (real n) + (z - 1) / (4 * real n)) 10
      \<and> expfun (z + 0.17 / sqrt (real n) + (z - 1) / (4 * real n)) 10
          = 2 * (\<Sum>k = 1..10. (- 1) ^ (k - 1)
                   * exp (- 2 * (real k)\<^sup>2
                          * (z + 0.17 / sqrt (real n) + (z - 1) / (4 * real n))\<^sup>2)))
   \<and> attempted_alphas sample_batch_AD ! 0 = 2
   \<and> attempted_ds sample_batch_AD ! 0 = 3
   \<and> attempted_pqs sample_batch_AD ! 0 = trial_pq (1 / 10) 16"
  using approx_p_formula [OF sample_strategy_AD sample_sweep_AD_0, of 0]
  by (simp add: sample_batch_AD_def)

text \<open>
  C6 as the specification states it, with \<open>d\<close> the fitted distance of the trial, fails for
  the distance type \<^verbatim>\<open>AD\<close>: on the sample run the first trial has the fitted exponent 2,
  the recorded distance 3 and 16 trimmed points, and its recorded approximate p-value is
  not \<open>expfun\<close> at \<open>z + 0.17 / sqrt 16 + (z - 1) / (4 \<cdot> 16)\<close> for \<open>z = 3 sqrt 16\<close>.
\<close>

theorem approx_p_AD_counterexample:
  "select_strategy sample_collab ''AD'' = Some sample_AD
   \<and> trial_sweep sample_collab sample_AD sample_sorted 2 0 = Some (Inr (sample_batch_AD, 4))
   \<and> attempted_alphas sample_batch_AD ! 0 = 2
   \<and> attempted_ds sample_batch_AD ! 0 = 3
   \<and> attempted_ns sample_batch_AD ! 0 = 16
   \<and> attempted_pqs sample_batch_AD ! 0
       \<noteq> expfun (3 * sqrt 16 + 0.17 / sqrt 16 + (3 * sqrt 16 - 1) / (4 * 16)) 10"
proof -
  have "trial_pq 3 16 = expfun (3 * sqrt 16 + 0.17 / sqrt 16 + (3 * sqrt 16 - 1) / (4 * 16)) 10"
    by (simp add: trial_pq_def Let_def)
  moreover have "trial_pq (1 / 10) 16 \<noteq> trial_pq 3 16"
    using sample_pq_high sample_pq_AD by argo
  moreover have "attempted_pqs sample_batch_AD ! 0 = trial_pq (1 / 10) 16"
    "attempted_alphas sample_batch_AD ! 0 = 2" "attempted_ds sample_batch_AD ! 0 = 3"
    "attempted_ns sample_batch_AD ! 0 = 16"
    by (simp_all add: sample_batch_AD_def)
  ultimately show ?thesis
    using sample_strategy_AD sample_sweep_AD_0 by (simp only: simp_thms)
qed

text \<open>
  C7: for a trial whose fitted exponent is at most 1, the recorded distance is still the
  initial \<open>10\<^sup>1\<^sup>2\<close> and the approximate p-value is computed from \<^verbatim>\<open>tmpd = 1\<close>; for an
  exponent above 1 the recorded distance is \<^verbatim>\<open>distfun(trimmed, alpha_hat)\<close> and the
  approximate p-value is computed from \<^verbatim>\<open>dfun(trimmed, alpha_hat)\<close>. (\<open>trial_pq\<close> is lines
  230 and 231.)
\<close>

theorem degenerate_fit_asymmetry:
  assumes "trial_sweep c s data runs g = Some (Inr (b, g'))" and "i < runs"
  shows "\<exists>trial_xmin_idx trial_xmax_idx trimmed alpha_hat n.
           attempted_xmins b ! i = data ! trial_xmin_idx
           \<and> attempted_xmaxs b ! i = data ! trial_xmax_idx
           \<and> trimmed = slice data trial_xmin_idx (trial_xmax_idx + 1)
           \<and> alpha_hat = brent s trimmed
           \<and> n = length trimmed
           \<and> attempted_alphas b ! i = alpha_hat
           \<and> (if alpha_hat > 1
               then attempted_ds b ! i = distfun s trimmed alpha_hat
                    \<and> attempted_pqs b ! i = trial_pq (dfun s trimmed alpha_hat) n
               else attempted_ds b ! i = 10 ^ 12
                    \<and> attempted_pqs b ! i = trial_pq 1 n)"
proof -
  from trial_sweep_rows(2) [OF assms] obtain lo hi where
    row: "batch_row b i = trial_row s data lo hi"
    by blast
  let ?tr = "slice data lo (hi + 1)"
  from row have f: "attempted_xmins b ! i = data ! lo" "attempted_xmaxs b ! i = data ! hi"
    "attempted_alphas b ! i = brent s ?tr"
    "attempted_pqs b ! i = trial_pq (if brent s ?tr > 1 then dfun s ?tr (brent s ?tr) else 1) (length ?tr)"
    "attempted_ds b ! i = (if brent s ?tr > 1 then distfun s ?tr (brent s ?tr) else 10 ^ 12)"
    by (simp_all add: batch_row_def trial_row_def Let_def)
  show ?thesis
    by (rule exI [of _ lo], rule exI [of _ hi], rule exI [of _ ?tr],
        rule exI [of _ "brent s ?tr"], rule exI [of _ "length ?tr"])
      (use f in simp)
qed


theorem degenerate_fit_asymmetry_witness:
  "(\<exists>trial_xmin_idx trial_xmax_idx trimmed alpha_hat n.
      attempted_xmins sample_batch_discrete ! 0 = sample_sorted ! trial_xmin_idx
      \<and> attempted_xmaxs sample_batch_discrete ! 0 = sample_sorted ! trial_xmax_idx
      \<and> trimmed = slice sample_sorted trial_xmin_idx (trial_xmax_idx + 1)
      \<and> alpha_hat = brent sample_discrete trimmed
      \<and> n = length trimmed
      \<and> attempted_alphas sample_batch_discrete ! 0 = alpha_hat
      \<and> (if alpha_hat > 1
          then attempted_ds sample_batch_discrete ! 0 = distfun sample_discrete trimmed alpha_hat
               \<and> attempted_pqs sample_batch_discrete ! 0
                   = trial_pq (dfun sample_discrete trimmed alpha_hat) n
          else attempted_ds sample_batch_discrete ! 0 = 10 ^ 12
               \<and> attempted_pqs sample_batch_discrete ! 0 = trial_pq 1 n))
   \<and> attempted_alphas sample_batch_discrete ! 0 = 1 / 2
   \<and> attempted_ds sample_batch_discrete ! 0 = 10 ^ 12
   \<and> attempted_alphas sample_batch ! 0 = 2
   \<and> attempted_ds sample_batch ! 0 = 1 / 10"
  using degenerate_fit_asymmetry [OF sample_sweep_discrete_0, of 0]
  by (simp add: sample_batch_discrete_def sample_batch_def)

subsection \<open>find\_true\_p\<close>

lemma length_synth_ds: "length (synth_ds c dfn n xmin xmax alpha k g) = k"
  by (induction k arbitrary: g) (simp_all add: Let_def split: prod.splits)

lemma true_p_loop_count:
  "fst (true_p_loop c dfn n xmin xmax alpha de k tot g)
     = tot + length (filter (\<lambda>ds. ds \<ge> de) (synth_ds c dfn n xmin xmax alpha k g))"
  by (induction k arbitrary: tot g) (simp_all add: Let_def split: prod.splits)

lemma binomial_sigma_bounds:
  fixes p :: real
  assumes "0 \<le> p" "p \<le> 1" "1 \<le> r"
  shows "0 \<le> sqrt (p * (1 - p) / r)" "sqrt (p * (1 - p) / r) \<le> 1"
proof -
  have nn: "0 \<le> p * (1 - p)" using assms by simp
  then show "0 \<le> sqrt (p * (1 - p) / r)" using assms by simp
  have "p * (1 - p) \<le> 1 * 1" using assms by (intro mult_mono) simp_all
  then have "p * (1 - p) / r \<le> 1"
    using assms nn by (simp add: field_simps)
  then show "sqrt (p * (1 - p) / r) \<le> 1" by simp
qed

text \<open>
  C5: for \<open>runs \<ge> 1\<close>, \<^verbatim>\<open>find_true_p\<close> returns \<open>p\<close>, the number of the \<open>runs\<close> synthetic
  iterations whose distance \<open>ds\<close> is at least the observed distance \<open>de\<close>, divided by
  \<open>runs\<close>, and \<open>sigma_p = sqrt (p (1 - p) / runs)\<close>; both lie between 0 and 1.
\<close>

theorem find_true_p_estimate:
  assumes "1 \<le> runs"
  shows "let x' = slice x (find_nearest_idx c x xmin) (find_nearest_idx c x xmax + 1);
             n = length x';
             alpha = brent_findmin c x';
             de = dfn x' alpha;
             count = length (filter (\<lambda>ds. ds \<ge> de) (synth_ds c dfn n xmin xmax alpha runs g))
         in \<exists>p sigp g'.
              find_true_p c x xmin xmax runs dfn g = (Inr (p, sigp), g')
              \<and> p = real count / real runs
              \<and> sigp = sqrt (p * (1 - p) / real runs)
              \<and> 0 \<le> p \<and> p \<le> 1 \<and> 0 \<le> sigp \<and> sigp \<le> 1"
proof -
  let ?x' = "slice x (find_nearest_idx c x xmin) (find_nearest_idx c x xmax + 1)"
  let ?n = "length ?x'"
  let ?alpha = "brent_findmin c ?x'"
  let ?de = "dfn ?x' ?alpha"
  let ?dss = "synth_ds c dfn ?n xmin xmax ?alpha runs g"
  let ?count = "length (filter (\<lambda>ds. ds \<ge> ?de) ?dss)"
  let ?p = "real ?count / real runs"
  obtain tot g' where loop: "true_p_loop c dfn ?n xmin xmax ?alpha ?de runs 0 g = (tot, g')"
    by (cases "true_p_loop c dfn ?n xmin xmax ?alpha ?de runs 0 g") auto
  have tot: "tot = ?count"
    using true_p_loop_count [of c dfn ?n xmin xmax ?alpha ?de runs 0 g] loop by simp
  have "?count \<le> length ?dss" by (rule length_filter_le)
  then have le: "?count \<le> runs" by (simp add: length_synth_ds)
  have p0: "0 \<le> ?p" by simp
  have p1: "?p \<le> 1" using le assms by (simp add: field_simps)
  have r: "1 \<le> real runs" using assms by simp
  have res: "find_true_p c x xmin xmax runs dfn g
      = (Inr (?p, sqrt (?p * (1 - ?p) / real runs)), g')"
    unfolding find_true_p_def Let_def loop tot using assms by simp
  show ?thesis
    unfolding Let_def
    using res p0 p1 binomial_sigma_bounds [OF p0 p1 r] by blast
qed


lemma sample_trimmed_facts:
  "slice sample_sorted 0 16 = sample_trimmed"
  "nearest_idx sample_trimmed 1 = 0" "nearest_idx sample_trimmed 4 = 15"
  "slice sample_trimmed 0 16 = sample_trimmed" "length sample_trimmed = 16"
  "last sample_trimmed = 4"
  by (simp_all add: sample_trimmed_def sample_sorted_def slice_def nearest_idx_def)

lemma sort_replicate: "sort (replicate n x) = replicate n (x::real)"
  by (simp add: sorted_sort_id)

lemma sample_true_p_loop_early:
  "g + k \<le> 1000 \<Longrightarrow>
   true_p_loop sample_collab (find_d_sorted sample_collab) 16 1 4 2 (1 / 10) k tot g
     = (tot + k, g + k)"
  by (induction k arbitrary: tot g) (simp_all add: sample_collab_def sort_replicate)

lemma sample_true_p_loop_late:
  "1000 \<le> g \<Longrightarrow>
   true_p_loop sample_collab (find_d_sorted sample_collab) 16 1 4 2 (1 / 10) k tot g
     = (tot, g + k)"
  by (induction k arbitrary: tot g) (simp_all add: sample_collab_def sort_replicate)

lemma sample_find_true_p_early:
  assumes "g + k \<le> 1000" "k \<noteq> 0"
  shows "find_true_p sample_collab sample_trimmed 1 4 k (find_d_sorted sample_collab) g
     = (Inr (1, 0), g + k)"
proof -
  have c: "find_d_sorted sample_collab sample_trimmed 2 = 1 / 10"
    "find_nearest_idx sample_collab = nearest_idx" "brent_findmin sample_collab = (\<lambda>xs. 2)"
    by (simp_all add: sample_collab_def sample_trimmed_facts)
  show ?thesis
    using assms
    by (simp add: find_true_p_def c sample_trimmed_facts sample_true_p_loop_early)
qed

lemma sample_find_true_p_late:
  assumes "1000 \<le> g" "k \<noteq> 0"
  shows "find_true_p sample_collab sample_trimmed 1 4 k (find_d_sorted sample_collab) g
     = (Inr (0, 0), g + k)"
proof -
  have c: "find_d_sorted sample_collab sample_trimmed 2 = 1 / 10"
    "find_nearest_idx sample_collab = nearest_idx" "brent_findmin sample_collab = (\<lambda>xs. 2)"
    by (simp_all add: sample_collab_def sample_trimmed_facts)
  show ?thesis
    using assms
    by (simp add: find_true_p_def c sample_trimmed_facts sample_true_p_loop_late)
qed

theorem find_true_p_estimate_witness:
  "(1::nat) \<le> 3
   \<and> (let x' = slice sample_trimmed (find_nearest_idx sample_collab sample_trimmed 1)
                 (find_nearest_idx sample_collab sample_trimmed 4 + 1);
           n = length x';
           alpha = brent_findmin sample_collab x';
           de = find_d_sorted sample_collab x' alpha;
           count = length (filter (\<lambda>ds. ds \<ge> de)
                     (synth_ds sample_collab (find_d_sorted sample_collab) n 1 4 alpha 3 4))
       in \<exists>p sigp g'.
            find_true_p sample_collab sample_trimmed 1 4 3 (find_d_sorted sample_collab) 4
              = (Inr (p, sigp), g')
            \<and> p = real count / real (3::nat)
            \<and> sigp = sqrt (p * (1 - p) / real (3::nat))
            \<and> 0 \<le> p \<and> p \<le> 1 \<and> 0 \<le> sigp \<and> sigp \<le> 1)
   \<and> find_true_p sample_collab sample_trimmed 1 4 3 (find_d_sorted sample_collab) 4
       = (Inr (1, 0), 7)"
  using find_true_p_estimate [where runs = 3 and c = sample_collab and x = sample_trimmed
      and xmin = 1 and xmax = 4 and dfn = "find_d_sorted sample_collab" and g = 4]
    sample_find_true_p_early [of 4 3]
  by simp

subsection \<open>Filtering and selection\<close>

lemma find_p_core_loop_length:
  "fst (find_p_core_loop c data ps pruns dfn g) = Inr qs \<Longrightarrow> length qs = length ps"
proof (induction ps arbitrary: g qs)
  case Nil
  then show ?case by simp
next
  case (Cons a ps)
  obtain xmin xmax where a: "a = (xmin, xmax)" by (cases a) auto
  from Cons.prems show ?case
    by (auto simp: a Let_def split: prod.splits sum.splits dest!: Cons.IH [of _ _]
        dest: arg_cong [where f = fst])
qed

lemma find_p_core_length:
  assumes "fst (find_p_core c data xs ys pruns dfn g) = Inr qs" "length xs = length ys"
  shows "length qs = length xs"
  using find_p_core_loop_length [of c data "zip xs ys" pruns dfn g qs] assms
  by (simp add: find_p_core_def)

lemma find_pl_montecarlo_select:
  assumes "select_strategy c dist_type = Some s"
    and "\<not> (dist_type = ''discrete'' \<and> (\<exists>x \<in> set data. x < 1))"
    and "trial_sweep c s (sort data) runs g = Some (Inr (b, g1))"
  shows "find_pl_montecarlo c data runs pqcrit pcrit pruns dist_type calc_p g
     = (case select_result c (sort data) b pqcrit (if calc_p then pcrit else pqcrit) pruns
               (dfun s) calc_p g1 of
          Inl e \<Rightarrow> Some (Inl e)
        | Inr r \<Rightarrow> Some (Inr ([], r)))"
proof -
  have "\<not> (dist_type = ''discrete'' \<and> list_ex (\<lambda>x. x < 1) (sort data))"
    using assms(2) by (simp add: list_ex_iff)
  then show ?thesis
    using assms(1,3) by (auto simp: find_pl_montecarlo_def Let_def)
qed

lemma select_result_empty_approx:
  assumes "np_where_gt (attempted_pqs b) pqcrit = []" "np_argmax (attempted_pqs b) = Inr i"
  shows "select_result c data b pqcrit pcrit pruns dfn calc_p g
         = Inr (attempted_xmins b ! i, attempted_xmaxs b ! i, attempted_alphas b ! i)"
  using assms by (simp add: select_result_def)

lemma select_result_nonempty_approx:
  assumes "np_where_gt (attempted_pqs b) pqcrit = idxs" "idxs \<noteq> []"
    and "(if calc_p
          then fst (find_p_core c data (take_idx (attempted_xmins b) idxs)
                      (take_idx (attempted_xmaxs b) idxs) pruns dfn g)
          else Inr (take_idx (attempted_pqs b) idxs)) = Inr possible_ps"
  shows "select_result c data b pqcrit pcrit pruns dfn calc_p g
     = (let idxs2 = np_where_gt possible_ps pcrit
        in if idxs2 = [] then
             (case np_argmax possible_ps of
                Inl e \<Rightarrow> Inl e
              | Inr k \<Rightarrow>
                  Inr (take_idx (attempted_xmins b) idxs ! k,
                       take_idx (attempted_xmaxs b) idxs ! k,
                       take_idx (attempted_alphas b) idxs ! k))
           else
             (case np_argmax (map2 (/) (take_idx (take_idx (attempted_xmaxs b) idxs) idxs2)
                                (take_idx (take_idx (attempted_xmins b) idxs) idxs2)) of
                Inl e \<Rightarrow> Inl e
              | Inr m \<Rightarrow>
                  Inr (take_idx (take_idx (attempted_xmins b) idxs) idxs2 ! m,
                       take_idx (take_idx (attempted_xmaxs b) idxs) idxs2 ! m,
                       take_idx (take_idx (attempted_alphas b) idxs) idxs2 ! m)))"
  using assms by (simp add: select_result_def Let_def)

lemma possible_ps_length:
  assumes "(if calc_p
          then fst (find_p_core c data (take_idx xs idxs) (take_idx ys idxs) pruns dfn g)
          else Inr (take_idx zs idxs)) = Inr possible_ps"
  shows "length possible_ps = length idxs"
proof (cases calc_p)
  case True
  with assms show ?thesis using find_p_core_length [of c data "take_idx xs idxs"] by simp
next
  case False
  with assms show ?thesis by auto
qed


text \<open>
  C4, for a sweep of at least one trial: when no trial has an approximate p-value above
  \<open>pqcrit\<close>, the call returns the trial with the largest approximate p-value of the whole
  batch (the first such trial); when some trials pass, the true p-values were computed
  (\<open>calc_p\<close>) and none is above \<open>pcrit\<close>, it returns the passing trial with the largest true
  p-value (the first such). No exception is raised on either path.
\<close>

theorem empty_candidate_fallbacks:
  assumes "select_strategy c dist_type = Some s"
    and "\<not> (dist_type = ''discrete'' \<and> (\<exists>x \<in> set data. x < 1))"
    and "trial_sweep c s (sort data) runs g = Some (Inr (b, g1))"
    and "1 \<le> runs"
    and "idxs = np_where_gt (attempted_pqs b) pqcrit"
  shows "(idxs = [] \<longrightarrow>
           (\<exists>i < runs.
              (\<forall>j < runs. attempted_pqs b ! j \<le> attempted_pqs b ! i)
              \<and> (\<forall>j < i. attempted_pqs b ! j < attempted_pqs b ! i)
              \<and> find_pl_montecarlo c data runs pqcrit pcrit pruns dist_type calc_p g
                  = Some (Inr ([], attempted_xmins b ! i, attempted_xmaxs b ! i,
                               attempted_alphas b ! i))))
       \<and> (idxs \<noteq> [] \<and> calc_p
           \<and> fst (find_p_core c (sort data) (take_idx (attempted_xmins b) idxs)
                    (take_idx (attempted_xmaxs b) idxs) pruns (dfun s) g1) = Inr possible_ps
           \<and> np_where_gt possible_ps pcrit = [] \<longrightarrow>
           (\<exists>k < length idxs.
              length possible_ps = length idxs
              \<and> (\<forall>m < length idxs. possible_ps ! m \<le> possible_ps ! k)
              \<and> (\<forall>m < k. possible_ps ! m < possible_ps ! k)
              \<and> find_pl_montecarlo c data runs pqcrit pcrit pruns dist_type calc_p g
                  = Some (Inr ([], attempted_xmins b ! (idxs ! k),
                               attempted_xmaxs b ! (idxs ! k),
                               attempted_alphas b ! (idxs ! k)))))"
proof (intro conjI impI)
  note sel = find_pl_montecarlo_select [OF assms(1,2,3)]
  have len: "length (attempted_pqs b) = runs"
    using trial_sweep_rows(1) [OF assms(3)] by (simp add: batch_len_def)
  {
    assume "idxs = []"
    then have e: "np_where_gt (attempted_pqs b) pqcrit = []" using assms(5) by simp
    have ne: "attempted_pqs b \<noteq> []" using len assms(4) by auto
    from np_argmax_first_max [OF ne] obtain i where
      am: "np_argmax (attempted_pqs b) = Inr i" and fm: "first_max (attempted_pqs b) i"
      by blast
    have r: "select_result c (sort data) b pqcrit (if calc_p then pcrit else pqcrit) pruns
                (dfun s) calc_p g1
              = Inr (attempted_xmins b ! i, attempted_xmaxs b ! i, attempted_alphas b ! i)"
      using e am by (rule select_result_empty_approx)
    from fm len have "i < runs" "\<forall>j < runs. attempted_pqs b ! j \<le> attempted_pqs b ! i"
      "\<forall>j < i. attempted_pqs b ! j < attempted_pqs b ! i"
      by (simp_all add: first_max_def)
    then show "\<exists>i < runs.
              (\<forall>j < runs. attempted_pqs b ! j \<le> attempted_pqs b ! i)
              \<and> (\<forall>j < i. attempted_pqs b ! j < attempted_pqs b ! i)
              \<and> find_pl_montecarlo c data runs pqcrit pcrit pruns dist_type calc_p g
                  = Some (Inr ([], attempted_xmins b ! i, attempted_xmaxs b ! i,
                               attempted_alphas b ! i))"
      using sel r by (intro exI [of _ i]) simp
  }
  {
    assume a: "idxs \<noteq> [] \<and> calc_p
           \<and> fst (find_p_core c (sort data) (take_idx (attempted_xmins b) idxs)
                    (take_idx (attempted_xmaxs b) idxs) pruns (dfun s) g1) = Inr possible_ps
           \<and> np_where_gt possible_ps pcrit = []"
    then have ps: "(if calc_p
          then fst (find_p_core c (sort data) (take_idx (attempted_xmins b) idxs)
                      (take_idx (attempted_xmaxs b) idxs) pruns (dfun s) g1)
          else Inr (take_idx (attempted_pqs b) idxs)) = Inr possible_ps"
      by simp
    have lps: "length possible_ps = length idxs" using ps by (rule possible_ps_length)
    with a have "possible_ps \<noteq> []" by auto
    from np_argmax_first_max [OF this] obtain k where
      am: "np_argmax possible_ps = Inr k" and fm: "first_max possible_ps k" by blast
    from fm lps have k: "k < length idxs" "\<forall>m < length idxs. possible_ps ! m \<le> possible_ps ! k"
      "\<forall>m < k. possible_ps ! m < possible_ps ! k"
      by (simp_all add: first_max_def)
    have "select_result c (sort data) b pqcrit (if calc_p then pcrit else pqcrit) pruns
                (dfun s) calc_p g1
          = Inr (attempted_xmins b ! (idxs ! k), attempted_xmaxs b ! (idxs ! k),
                 attempted_alphas b ! (idxs ! k))"
      using select_result_nonempty_approx [OF assms(5) [symmetric] _ ps] a am k(1)
      by simp
    then show "\<exists>k < length idxs.
              length possible_ps = length idxs
              \<and> (\<forall>m < length idxs. possible_ps ! m \<le> possible_ps ! k)
              \<and> (\<forall>m < k. possible_ps ! m < possible_ps ! k)
              \<and> find_pl_montecarlo c data runs pqcrit pcrit pruns dist_type calc_p g
                  = Some (Inr ([], attempted_xmins b ! (idxs ! k),
                               attempted_xmaxs b ! (idxs ! k),
                               attempted_alphas b ! (idxs ! k)))"
      using sel k lps by (intro exI [of _ k]) simp
  }
qed


lemma sorted_take_idx:
  assumes "sorted_wrt (<) idxs" "sorted_wrt (<) js" "\<forall>j \<in> set js. j < length idxs"
  shows "sorted_wrt (<) (take_idx idxs js)"
proof -
  have "sorted_wrt (\<lambda>x y. idxs ! x < idxs ! y) js"
  proof (rule sorted_wrt_mono_rel [OF _ assms(2)])
    fix x y assume "x \<in> set js" "y \<in> set js" "x < y"
    with assms(1,3) show "idxs ! x < idxs ! y"
      by (simp add: sorted_wrt_iff_nth_less)
  qed
  then show ?thesis by (simp add: take_idx_def sorted_wrt_map)
qed

lemma recorded_xmin_in_data:
  assumes "trial_sweep c s data runs g = Some (Inr (b, g'))" "i < runs"
  shows "attempted_xmins b ! i \<in> set data"
proof -
  from trial_sweep_rows(2) [OF assms] obtain lo hi where
    acc: "accepted data lo hi" and row: "batch_row b i = trial_row s data lo hi"
    by blast
  from row have "attempted_xmins b ! i = data ! lo"
    by (simp add: batch_row_def trial_row_def Let_def)
  with acc show ?thesis by (simp add: accepted_def)
qed

lemma select_result_survivors:
  assumes "idxs = np_where_gt (attempted_pqs b) pqcrit"
    and "(if calc_p
          then fst (find_p_core c data (take_idx (attempted_xmins b) idxs)
                      (take_idx (attempted_xmaxs b) idxs) pruns dfn g)
          else Inr (take_idx (attempted_pqs b) idxs)) = Inr possible_ps"
    and "survivors = take_idx idxs (np_where_gt possible_ps pc)"
    and "survivors \<noteq> []"
  shows "\<exists>m < length survivors.
            select_result c data b pqcrit pc pruns dfn calc_p g
              = Inr (attempted_xmins b ! (survivors ! m),
                     attempted_xmaxs b ! (survivors ! m),
                     attempted_alphas b ! (survivors ! m))
            \<and> (\<forall>m' < length survivors.
                  attempted_xmaxs b ! (survivors ! m') / attempted_xmins b ! (survivors ! m')
                  \<le> attempted_xmaxs b ! (survivors ! m) / attempted_xmins b ! (survivors ! m))
            \<and> (\<forall>m' < m.
                  attempted_xmaxs b ! (survivors ! m') / attempted_xmins b ! (survivors ! m')
                  < attempted_xmaxs b ! (survivors ! m) / attempted_xmins b ! (survivors ! m))"
    and "sorted_wrt (<) survivors"
    and "set survivors \<subseteq> set idxs"
proof -
  let ?idxs2 = "np_where_gt possible_ps pc"
  let ?xmins2 = "take_idx (take_idx (attempted_xmins b) idxs) ?idxs2"
  let ?xmaxs2 = "take_idx (take_idx (attempted_xmaxs b) idxs) ?idxs2"
  let ?alphas2 = "take_idx (take_idx (attempted_alphas b) idxs) ?idxs2"
  define ratios where "ratios = map2 (/) ?xmaxs2 ?xmins2"
  have lps: "length possible_ps = length idxs" using assms(2) by (rule possible_ps_length)
  have ls: "length survivors = length ?idxs2" using assms(3) by simp
  have i2: "?idxs2 \<noteq> []" using assms(4) ls by auto
  have rng: "?idxs2 ! k < length idxs" if "k < length ?idxs2" for k
    using nth_np_where_gt [OF that] lps by simp
  have sv: "survivors ! k = idxs ! (?idxs2 ! k)" if "k < length ?idxs2" for k
    using that assms(3) by simp
  have ne: "idxs \<noteq> []" using rng [of 0] i2 by auto
  have nth2: "?xmins2 ! k = attempted_xmins b ! (survivors ! k)"
    "?xmaxs2 ! k = attempted_xmaxs b ! (survivors ! k)"
    "?alphas2 ! k = attempted_alphas b ! (survivors ! k)" if "k < length ?idxs2" for k
    using that rng [OF that] sv [OF that] by simp_all
  have lr: "length ratios = length ?idxs2" by (simp add: ratios_def)
  have nr: "ratios ! k
      = attempted_xmaxs b ! (survivors ! k) / attempted_xmins b ! (survivors ! k)"
    if "k < length ?idxs2" for k
    using that nth2 [OF that] by (simp add: ratios_def)
  have "ratios \<noteq> []" using i2 lr by (metis length_0_conv)
  from np_argmax_first_max [OF this] obtain m where
    am: "np_argmax ratios = Inr m" and fm: "first_max ratios m" by blast
  from fm lr have m: "m < length ?idxs2" by (simp add: first_max_def)
  have res: "select_result c data b pqcrit pc pruns dfn calc_p g
      = Inr (attempted_xmins b ! (survivors ! m), attempted_xmaxs b ! (survivors ! m),
             attempted_alphas b ! (survivors ! m))"
    using select_result_nonempty_approx [OF assms(1) [symmetric] ne assms(2), of pc]
      i2 am [unfolded ratios_def] nth2 [OF m]
    by (simp add: Let_def)
  show "\<exists>m < length survivors.
            select_result c data b pqcrit pc pruns dfn calc_p g
              = Inr (attempted_xmins b ! (survivors ! m),
                     attempted_xmaxs b ! (survivors ! m),
                     attempted_alphas b ! (survivors ! m))
            \<and> (\<forall>m' < length survivors.
                  attempted_xmaxs b ! (survivors ! m') / attempted_xmins b ! (survivors ! m')
                  \<le> attempted_xmaxs b ! (survivors ! m) / attempted_xmins b ! (survivors ! m))
            \<and> (\<forall>m' < m.
                  attempted_xmaxs b ! (survivors ! m') / attempted_xmins b ! (survivors ! m')
                  < attempted_xmaxs b ! (survivors ! m) / attempted_xmins b ! (survivors ! m))"
  proof (intro exI [of _ m] conjI allI impI)
    show "m < length survivors" using m ls by simp
    show "select_result c data b pqcrit pc pruns dfn calc_p g
              = Inr (attempted_xmins b ! (survivors ! m),
                     attempted_xmaxs b ! (survivors ! m),
                     attempted_alphas b ! (survivors ! m))"
      by (rule res)
  next
    fix m' assume "m' < length survivors"
    then have m': "m' < length ?idxs2" using ls by simp
    then have "ratios ! m' \<le> ratios ! m" using fm lr by (simp add: first_max_def)
    then show "attempted_xmaxs b ! (survivors ! m') / attempted_xmins b ! (survivors ! m')
                  \<le> attempted_xmaxs b ! (survivors ! m) / attempted_xmins b ! (survivors ! m)"
      by (simp only: nr [OF m'] nr [OF m])
  next
    fix m' assume lt: "m' < m"
    then have m': "m' < length ?idxs2" using m by simp
    from lt have "ratios ! m' < ratios ! m" using fm by (simp add: first_max_def)
    then show "attempted_xmaxs b ! (survivors ! m') / attempted_xmins b ! (survivors ! m')
                  < attempted_xmaxs b ! (survivors ! m) / attempted_xmins b ! (survivors ! m)"
      by (simp only: nr [OF m'] nr [OF m])
  qed
  have in2: "\<forall>j \<in> set ?idxs2. j < length idxs"
    using set_np_where_gt [of possible_ps pc] lps by auto
  then show "sorted_wrt (<) survivors"
    unfolding assms(3) assms(1)
    by (intro sorted_take_idx sorted_np_where_gt) (simp add: assms(1))
  show "set survivors \<subseteq> set idxs"
    using in2 by (auto simp: assms(3) take_idx_def)
qed

text \<open>
  C1, on data with positive entries: when \<open>survivors\<close>, the trials left by the final filter
  in scan order, is not empty, the call returns the survivor with the largest
  \<open>xmax / xmin\<close>, and the first one among equals. The survivors are listed by
  increasing trial index, each passed the \<open>pqcrit\<close> filter, and without \<open>calc_p\<close> they are
  exactly the trials whose approximate p-value is above \<open>pqcrit\<close>.
\<close>

theorem final_selection_rule:
  assumes "select_strategy c dist_type = Some s"
    and "\<not> (dist_type = ''discrete'' \<and> (\<exists>x \<in> set data. x < 1))"
    and "\<forall>x \<in> set data. 0 < x"
    and "trial_sweep c s (sort data) runs g = Some (Inr (b, g1))"
    and "idxs = np_where_gt (attempted_pqs b) pqcrit"
    and "(if calc_p
          then fst (find_p_core c (sort data) (take_idx (attempted_xmins b) idxs)
                      (take_idx (attempted_xmaxs b) idxs) pruns (dfun s) g1)
          else Inr (take_idx (attempted_pqs b) idxs)) = Inr possible_ps"
    and "survivors = take_idx idxs (np_where_gt possible_ps (if calc_p then pcrit else pqcrit))"
    and "survivors \<noteq> []"
  shows "(\<exists>m < length survivors.
            find_pl_montecarlo c data runs pqcrit pcrit pruns dist_type calc_p g
              = Some (Inr ([], attempted_xmins b ! (survivors ! m),
                           attempted_xmaxs b ! (survivors ! m),
                           attempted_alphas b ! (survivors ! m)))
            \<and> (\<forall>m' < length survivors.
                  attempted_xmaxs b ! (survivors ! m') / attempted_xmins b ! (survivors ! m')
                  \<le> attempted_xmaxs b ! (survivors ! m) / attempted_xmins b ! (survivors ! m))
            \<and> (\<forall>m' < m.
                  attempted_xmaxs b ! (survivors ! m') / attempted_xmins b ! (survivors ! m')
                  < attempted_xmaxs b ! (survivors ! m) / attempted_xmins b ! (survivors ! m)))
       \<and> sorted_wrt (<) survivors
       \<and> (\<forall>i \<in> set survivors. i < runs \<and> attempted_pqs b ! i > pqcrit
             \<and> 0 < attempted_xmins b ! i)
       \<and> (\<not> calc_p \<longrightarrow> survivors = np_where_gt (attempted_pqs b) pqcrit)"
proof -
  let ?pc = "if calc_p then pcrit else pqcrit"
  note sel = find_pl_montecarlo_select [OF assms(1,2,4)]
  have len: "length (attempted_pqs b) = runs"
    using trial_sweep_rows(1) [OF assms(4)] by (simp add: batch_len_def)
  have lps: "length possible_ps = length idxs" using assms(6) by (rule possible_ps_length)
  note sur = select_result_survivors [OF assms(5,6,7,8)]
  from sur(1) obtain m where m: "m < length survivors"
    and res: "select_result c (sort data) b pqcrit ?pc pruns (dfun s) calc_p g1
              = Inr (attempted_xmins b ! (survivors ! m),
                     attempted_xmaxs b ! (survivors ! m),
                     attempted_alphas b ! (survivors ! m))"
    and mx: "\<forall>m' < length survivors.
                  attempted_xmaxs b ! (survivors ! m') / attempted_xmins b ! (survivors ! m')
                  \<le> attempted_xmaxs b ! (survivors ! m) / attempted_xmins b ! (survivors ! m)"
    and fst: "\<forall>m' < m.
                  attempted_xmaxs b ! (survivors ! m') / attempted_xmins b ! (survivors ! m')
                  < attempted_xmaxs b ! (survivors ! m) / attempted_xmins b ! (survivors ! m)"
    by blast
  have fp: "find_pl_montecarlo c data runs pqcrit pcrit pruns dist_type calc_p g
              = Some (Inr ([], attempted_xmins b ! (survivors ! m),
                           attempted_xmaxs b ! (survivors ! m),
                           attempted_alphas b ! (survivors ! m)))"
    unfolding sel res by simp
  have part1: "\<exists>m < length survivors.
            find_pl_montecarlo c data runs pqcrit pcrit pruns dist_type calc_p g
              = Some (Inr ([], attempted_xmins b ! (survivors ! m),
                           attempted_xmaxs b ! (survivors ! m),
                           attempted_alphas b ! (survivors ! m)))
            \<and> (\<forall>m' < length survivors.
                  attempted_xmaxs b ! (survivors ! m') / attempted_xmins b ! (survivors ! m')
                  \<le> attempted_xmaxs b ! (survivors ! m) / attempted_xmins b ! (survivors ! m))
            \<and> (\<forall>m' < m.
                  attempted_xmaxs b ! (survivors ! m') / attempted_xmins b ! (survivors ! m')
                  < attempted_xmaxs b ! (survivors ! m) / attempted_xmins b ! (survivors ! m))"
    using m fp mx fst by blast
  have part3: "\<forall>i \<in> set survivors. i < runs \<and> attempted_pqs b ! i > pqcrit
             \<and> 0 < attempted_xmins b ! i"
  proof
    fix i assume "i \<in> set survivors"
    then have "i \<in> set idxs" using sur(3) by auto
    then have a: "i < runs \<and> attempted_pqs b ! i > pqcrit"
      using assms(5) set_np_where_gt [of "attempted_pqs b" pqcrit] len by auto
    then have "attempted_xmins b ! i \<in> set (sort data)"
      using recorded_xmin_in_data [OF assms(4)] by simp
    with assms(3) a show "i < runs \<and> attempted_pqs b ! i > pqcrit \<and> 0 < attempted_xmins b ! i"
      by simp
  qed
  have part4: "\<not> calc_p \<longrightarrow> survivors = np_where_gt (attempted_pqs b) pqcrit"
  proof
    assume nc: "\<not> calc_p"
    with assms(6) have ps: "possible_ps = take_idx (attempted_pqs b) idxs" by simp
    have "\<forall>k < length possible_ps. possible_ps ! k > pqcrit"
      using ps assms(5) nth_np_where_gt [of _ "attempted_pqs b" pqcrit] by simp
    then have "np_where_gt possible_ps pqcrit = [0..<length possible_ps]"
      by (rule np_where_gt_all)
    with nc assms(7) lps have "survivors = take_idx idxs [0..<length idxs]" by simp
    then show "survivors = np_where_gt (attempted_pqs b) pqcrit"
      using assms(5) by (simp add: take_idx_upt)
  qed
  from part1 sur(2) part3 part4 show ?thesis by blast
qed

subsection \<open>Sample calls of find\_pl\_montecarlo\<close>

lemma sample_collab_fields:
  "find_nearest_idx sample_collab = nearest_idx"
  "dfun (initial_strategy sample_collab) = find_d_sorted sample_collab"
  by (simp_all add: sample_collab_def initial_strategy_def)

lemma sample_find_p_core_early:
  assumes "g + 6 \<le> 1000"
  shows "find_p_core sample_collab sample_sorted [1, 1] [4, 4] 3 (find_d_sorted sample_collab) g
     = (Inr [1, 1], g + 6)"
  using assms
  by (simp add: find_p_core_def sample_collab_fields nearest_idx_sample sample_trimmed_facts
      sample_find_true_p_early)

lemma sample_find_p_core_late:
  assumes "1000 \<le> g"
  shows "find_p_core sample_collab sample_sorted [1, 1] [4, 4] 3 (find_d_sorted sample_collab) g
     = (Inr [0, 0], g + 6)"
  using assms
  by (simp add: find_p_core_def sample_collab_fields nearest_idx_sample sample_trimmed_facts
      sample_find_true_p_late)

lemma sample_data_positive: "\<forall>x \<in> set sample_data. 0 < x"
  by (simp add: sample_data_def)

lemma sample_data_ge_1: "\<not> (\<exists>x \<in> set sample_data. x < 1)"
  by (simp add: sample_data_def)

lemma sample_idxs: "np_where_gt (attempted_pqs sample_batch) (7 / 20) = [0, 1]"
  using sample_pq_high by (simp add: np_where_gt_def sample_batch_def upt_2)

lemma sample_idxs_discrete: "np_where_gt (attempted_pqs sample_batch_discrete) (7 / 20) = []"
  using sample_pq_low by (simp add: np_where_gt_def sample_batch_discrete_def upt_2)

lemma sample_take_idx:
  "take_idx (attempted_xmins sample_batch) [0, 1] = [1, 1]"
  "take_idx (attempted_xmaxs sample_batch) [0, 1] = [4, 4]"
  by (simp_all add: take_idx_def sample_batch_def)

lemma np_where_gt_sample_ps:
  "np_where_gt [1, 1] (1 / 4) = [0, 1]" "np_where_gt [0, 0] (1 / 4) = []"
  by (simp_all add: np_where_gt_def upt_2)


lemma sample_sweep_sorted:
  "even g \<Longrightarrow>
   trial_sweep sample_collab (initial_strategy sample_collab) (sort sample_data) 2 g
     = Some (Inr (sample_batch, g + 4))"
  "even g \<Longrightarrow>
   trial_sweep sample_collab sample_discrete (sort sample_data) 2 g
     = Some (Inr (sample_batch_discrete, g + 4))"
  by (simp_all add: sort_sample_data sample_sweep sample_sweep_discrete)

lemma sample_result_rows:
  assumes "m < length [0, 1::nat]"
  shows "(attempted_xmins sample_batch ! ([0, 1] ! m),
          attempted_xmaxs sample_batch ! ([0, 1] ! m),
          attempted_alphas sample_batch ! ([0, 1] ! m)) = (1, 4, 2)"
proof -
  from assms have "m = 0 \<or> m = 1" by auto
  then show ?thesis by (auto simp: sample_batch_def)
qed

lemma sample_result_rows_discrete:
  assumes "i < (2::nat)"
  shows "(attempted_xmins sample_batch_discrete ! i,
          attempted_xmaxs sample_batch_discrete ! i,
          attempted_alphas sample_batch_discrete ! i) = (1, 4, 1 / 2)"
proof -
  from assms have "i = 0 \<or> i = 1" by auto
  then show ?thesis by (auto simp: sample_batch_discrete_def)
qed

theorem final_selection_rule_witness:
  "find_pl_montecarlo sample_collab sample_data 2 (7 / 20) (1 / 4) 3 ''KS'' True 0
     = Some (Inr ([], 1, 4, 2))
   \<and> find_pl_montecarlo sample_collab sample_data 2 (7 / 20) (1 / 4) 3 ''KS'' False 0
     = Some (Inr ([], 1, 4, 2))"
proof -
  have nd: "\<not> (''KS'' = ''discrete'' \<and> (\<exists>x \<in> set sample_data. x < 1))" by simp
  have sw: "trial_sweep sample_collab (initial_strategy sample_collab) (sort sample_data) 2 0
      = Some (Inr (sample_batch, 4))"
    using sample_sweep_sorted(1) [of 0] by simp
  have ps: "(if True
      then fst (find_p_core sample_collab (sort sample_data)
                  (take_idx (attempted_xmins sample_batch) [0, 1])
                  (take_idx (attempted_xmaxs sample_batch) [0, 1]) 3
                  (dfun (initial_strategy sample_collab)) 4)
      else Inr (take_idx (attempted_pqs sample_batch) [0, 1])) = Inr [1, 1]"
    unfolding sort_sample_data sample_take_idx sample_collab_fields
    by (simp add: sample_find_p_core_early)
  have sv: "[0, 1] = take_idx [0, 1] (np_where_gt [1, 1] (if True then 1 / 4 else 7 / 20))"
    by (simp add: np_where_gt_sample_ps take_idx_def)
  have ps': "(if False
      then fst (find_p_core sample_collab (sort sample_data)
                  (take_idx (attempted_xmins sample_batch) [0, 1])
                  (take_idx (attempted_xmaxs sample_batch) [0, 1]) 3
                  (dfun (initial_strategy sample_collab)) 4)
      else Inr (take_idx (attempted_pqs sample_batch) [0, 1]))
      = Inr (take_idx (attempted_pqs sample_batch) [0, 1])"
    by simp
  have "np_where_gt (take_idx (attempted_pqs sample_batch) [0, 1]) (7 / 20) = [0, 1]"
    using sample_pq_high by (simp add: np_where_gt_def take_idx_def sample_batch_def upt_2)
  then have sv': "[0, 1] = take_idx [0, 1]
      (np_where_gt (take_idx (attempted_pqs sample_batch) [0, 1])
         (if False then 1 / 4 else 7 / 20))"
    by (simp add: take_idx_def)
  have ne: "[0, 1::nat] \<noteq> []" by simp
  from final_selection_rule [OF sample_strategy_KS nd sample_data_positive sw
      sample_idxs [symmetric] ps sv ne, THEN conjunct1]
  obtain m where m: "m < length [0, 1::nat]" and
    eq1: "find_pl_montecarlo sample_collab sample_data 2 (7 / 20) (1 / 4) 3 ''KS'' True 0
       = Some (Inr ([], attempted_xmins sample_batch ! ([0, 1] ! m),
                    attempted_xmaxs sample_batch ! ([0, 1] ! m),
                    attempted_alphas sample_batch ! ([0, 1] ! m)))"
    by blast
  from eq1 have a: "find_pl_montecarlo sample_collab sample_data 2 (7 / 20) (1 / 4) 3 ''KS'' True 0
       = Some (Inr ([], 1, 4, 2))"
    unfolding sample_result_rows [OF m] .
  from final_selection_rule [OF sample_strategy_KS nd sample_data_positive sw
      sample_idxs [symmetric] ps' sv' ne, THEN conjunct1]
  obtain m' where m': "m' < length [0, 1::nat]" and
    eq2: "find_pl_montecarlo sample_collab sample_data 2 (7 / 20) (1 / 4) 3 ''KS'' False 0
       = Some (Inr ([], attempted_xmins sample_batch ! ([0, 1] ! m'),
                    attempted_xmaxs sample_batch ! ([0, 1] ! m'),
                    attempted_alphas sample_batch ! ([0, 1] ! m')))"
    by blast
  from eq2 have b: "find_pl_montecarlo sample_collab sample_data 2 (7 / 20) (1 / 4) 3 ''KS'' False 0
       = Some (Inr ([], 1, 4, 2))"
    unfolding sample_result_rows [OF m'] .
  from a b show ?thesis by (rule conjI)
qed

theorem empty_candidate_fallbacks_witness:
  "find_pl_montecarlo sample_collab sample_data 2 (7 / 20) (1 / 4) 3 ''discrete'' True 0
     = Some (Inr ([], 1, 4, 1 / 2))
   \<and> find_pl_montecarlo sample_collab sample_data 2 (7 / 20) (1 / 4) 3 ''KS'' True 1000
     = Some (Inr ([], 1, 4, 2))"
proof -
  have nd: "\<not> (''discrete'' = ''discrete'' \<and> (\<exists>x \<in> set sample_data. x < 1))"
    using sample_data_ge_1 by simp
  have sw: "trial_sweep sample_collab sample_discrete (sort sample_data) 2 0
      = Some (Inr (sample_batch_discrete, 4))"
    using sample_sweep_sorted(2) [of 0] by simp
  have r: "(1::nat) \<le> 2" by simp
  from empty_candidate_fallbacks [OF sample_strategy_discrete nd sw r
      sample_idxs_discrete [symmetric],
      where calc_p = True and pcrit = "1 / 4" and pruns = 3 and possible_ps = "[]",
      THEN conjunct1, THEN mp, OF refl]
  obtain i where i: "i < (2::nat)" and
    eq3: "find_pl_montecarlo sample_collab sample_data 2 (7 / 20) (1 / 4) 3 ''discrete'' True 0
       = Some (Inr ([], attempted_xmins sample_batch_discrete ! i,
                    attempted_xmaxs sample_batch_discrete ! i,
                    attempted_alphas sample_batch_discrete ! i))"
    by blast
  from eq3 have a: "find_pl_montecarlo sample_collab sample_data 2 (7 / 20) (1 / 4) 3 ''discrete'' True 0
     = Some (Inr ([], 1, 4, 1 / 2))"
    unfolding sample_result_rows_discrete [OF i] .
  have nd': "\<not> (''KS'' = ''discrete'' \<and> (\<exists>x \<in> set sample_data. x < 1))" by simp
  have sw': "trial_sweep sample_collab (initial_strategy sample_collab) (sort sample_data) 2 1000
      = Some (Inr (sample_batch, 1004))"
    using sample_sweep_sorted(1) [of 1000] by simp
  have ps: "fst (find_p_core sample_collab (sort sample_data)
                  (take_idx (attempted_xmins sample_batch) [0, 1])
                  (take_idx (attempted_xmaxs sample_batch) [0, 1]) 3
                  (dfun (initial_strategy sample_collab)) 1004) = Inr [0, 0]"
    unfolding sort_sample_data sample_take_idx sample_collab_fields
    by (simp add: sample_find_p_core_late)
  have hyp: "[0, 1::nat] \<noteq> [] \<and> True \<and> fst (find_p_core sample_collab (sort sample_data)
                  (take_idx (attempted_xmins sample_batch) [0, 1])
                  (take_idx (attempted_xmaxs sample_batch) [0, 1]) 3
                  (dfun (initial_strategy sample_collab)) 1004) = Inr [0, 0]
      \<and> np_where_gt [0, 0] (1 / 4) = []"
    using ps np_where_gt_sample_ps(2) by blast
  from empty_candidate_fallbacks [OF sample_strategy_KS nd' sw' r sample_idxs [symmetric],
      where calc_p = True and possible_ps = "[0, 0]" and pcrit = "1 / 4" and pruns = 3,
      THEN conjunct2, THEN mp, OF hyp]
  obtain k where k: "k < length [0, 1::nat]" and
    eq4: "find_pl_montecarlo sample_collab sample_data 2 (7 / 20) (1 / 4) 3 ''KS'' True 1000
       = Some (Inr ([], attempted_xmins sample_batch ! ([0, 1] ! k),
                    attempted_xmaxs sample_batch ! ([0, 1] ! k),
                    attempted_alphas sample_batch ! ([0, 1] ! k)))"
    by blast
  from eq4 have b: "find_pl_montecarlo sample_collab sample_data 2 (7 / 20) (1 / 4) 3 ''KS'' True 1000
     = Some (Inr ([], 1, 4, 2))"
    unfolding sample_result_rows [OF k] .
  from a b show ?thesis by (rule conjI)
qed

text \<open>
  C4 as the specification states it fails for \<open>runs = 0\<close>: the batch is empty, no trial
  has an approximate p-value above \<open>pqcrit\<close>, and \<^verbatim>\<open>np.argmax\<close> raises \<^verbatim>\<open>ValueError\<close>.
\<close>

theorem empty_batch_counterexample:
  "trial_sweep sample_collab (initial_strategy sample_collab) (sort sample_data) 0 0
     = Some (Inr (initial_batch 0, 0))
   \<and> np_where_gt (attempted_pqs (initial_batch 0)) (7 / 20) = []
   \<and> find_pl_montecarlo sample_collab sample_data 0 (7 / 20) (1 / 4) 100 ''KS'' True 0
       = Some (Inl ValueError)"
proof -
  have sw: "trial_sweep sample_collab (initial_strategy sample_collab) (sort sample_data) 0 0
     = Some (Inr (initial_batch 0, 0))"
    by (simp add: trial_sweep_def sort_sample_data sample_sorted_facts)
  have e: "np_where_gt (attempted_pqs (initial_batch 0)) (7 / 20) = []"
    by (simp add: np_where_gt_def initial_batch_def)
  have "select_result sample_collab (sort sample_data) (initial_batch 0) (7 / 20) (1 / 4) 100
      (dfun (initial_strategy sample_collab)) True 0 = Inl ValueError"
    using e by (simp add: select_result_def np_argmax_def initial_batch_def)
  with sw e show ?thesis
    using sample_data_ge_1
    by (simp add: find_pl_montecarlo_def sample_strategy_KS list_ex_iff)
qed

subsection \<open>Termination of the rejection loop\<close>

lemma nearest_scan_bound:
  "best < i \<Longrightarrow> nearest_scan xs v i best bd < i + length xs"
proof (induction xs arbitrary: i best bd)
  case Nil
  then show ?case by simp
next
  case (Cons x xs)
  have "nearest_scan xs v (Suc i) b' bd' < Suc i + length xs" if "b' < Suc i" for b' bd'
    using that by (rule Cons.IH)
  then show ?case using Cons.prems by simp
qed

lemma nearest_idx_in_range: "xs \<noteq> [] \<Longrightarrow> nearest_idx xs v < length xs"
  using nearest_scan_bound [of 0 1 "tl xs" v "\<bar>hd xs - v\<bar>"]
  by (cases xs) (simp_all add: nearest_idx_def)

lemma draw_trial_returns:
  assumes "\<forall>v. nearest_first s data v < length data \<and> nearest_last s data v < length data"
  shows "\<exists>st. draw_trial c s data lx lr g = Inr st"
  using assms by (simp add: draw_trial_def Let_def split: prod.splits)

lemma rejection_loop_no_error:
  assumes "rejection_loop c s data lx lr st = Some y"
    and "\<forall>v. nearest_first s data v < length data \<and> nearest_last s data v < length data"
  shows "\<exists>r. y = Inr r"
  using assms
proof (induction rule: rejection_loop.raw_induct [rotated, consumes 1, case_names step])
  case (step f c s data lx lr st y)
  show ?case
  proof (cases "rejected data (fst st) (fst (snd st))")
    case True
    from draw_trial_returns [OF step(3), of c lx lr "snd (snd st)"] obtain st' where
      d: "draw_trial c s data lx lr (snd (snd st)) = Inr st'" by blast
    with True step(2) have "f c s data lx lr st' = Some y" by simp
    then show ?thesis using step(3) by (rule step(1))
  next
    case False
    with step(2) have "y = Inr st" by simp
    then show ?thesis by (rule exI)
  qed
qed

lemma rejection_loop_rejected:
  "rejected data a b \<Longrightarrow>
   rejection_loop c s data lx lr (a, b, g1) = gen_trial c s data lx lr g1"
  by (subst rejection_loop.simps) (simp add: gen_trial_def)

lemma rejection_loop_not_rejected:
  "\<not> rejected data a b \<Longrightarrow>
   rejection_loop c s data lx lr (a, b, g1) = Some (Inr (a, b, g1))"
  by (subst rejection_loop.simps) simp

lemma gen_trial_unfold:
  "gen_trial c s data lx lr g =
     (case draw_trial c s data lx lr g of
        Inl e \<Rightarrow> Some (Inl e)
      | Inr (a, b, g1) \<Rightarrow>
          if rejected data a b then gen_trial c s data lx lr g1 else Some (Inr (a, b, g1)))"
  by (auto simp: gen_trial_def rejection_loop_rejected rejection_loop_not_rejected
      split: sum.splits)

lemma accepted_draw_returns:
  assumes "nth_draw c s data lx lr k g = Inr (lo, hi, g')" "\<not> rejected data lo hi"
  shows "\<exists>r. gen_trial c s data lx lr g = Some (Inr r)"
  using assms
proof (induction k arbitrary: g)
  case 0
  then show ?case by (subst gen_trial_unfold) simp
next
  case (Suc k)
  from Suc.prems(1) obtain a b g1 where
    d: "draw_trial c s data lx lr g = Inr (a, b, g1)"
    and n: "nth_draw c s data lx lr k g1 = Inr (lo, hi, g')"
    by (auto split: sum.splits)
  show ?case
  proof (cases "rejected data a b")
    case True
    with d have "gen_trial c s data lx lr g = gen_trial c s data lx lr g1"
      by (subst gen_trial_unfold) simp
    with Suc.IH [OF n Suc.prems(2)] show ?thesis by simp
  next
    case False
    with d show ?thesis by (subst gen_trial_unfold) simp
  qed
qed


lemma nth_draw_in_range:
  "nth_draw c s data lx lr k g = Inr (lo, hi, g') \<Longrightarrow> lo < length data \<and> hi < length data"
proof (induction k arbitrary: g)
  case 0
  then show ?case using draw_trial_in_range by simp
next
  case (Suc k)
  then show ?case by (auto split: sum.splits)
qed

lemma rejection_loop_returns_draw:
  assumes "rejection_loop c s data lx lr st = Some y"
  shows "\<forall>r. y = Inr r \<longrightarrow>
           (\<not> rejected data (fst st) (fst (snd st)) \<and> r = st)
           \<or> (\<exists>k. nth_draw c s data lx lr k (snd (snd st)) = Inr r
                  \<and> \<not> rejected data (fst r) (fst (snd r)))"
  using assms
proof (induction rule: rejection_loop.raw_induct [rotated, consumes 1, case_names step])
  case (step f c s data lx lr st y)
  show ?case
  proof (intro allI impI)
    fix r assume y: "y = Inr r"
    show "(\<not> rejected data (fst st) (fst (snd st)) \<and> r = st)
           \<or> (\<exists>k. nth_draw c s data lx lr k (snd (snd st)) = Inr r
                  \<and> \<not> rejected data (fst r) (fst (snd r)))"
    proof (cases "rejected data (fst st) (fst (snd st))")
      case False
      with step(2) y show ?thesis by simp
    next
      case True
      show ?thesis
      proof (cases "draw_trial c s data lx lr (snd (snd st))")
        case (Inl e)
        with True step(2) y show ?thesis by simp
      next
        case (Inr st')
        with True step(2) have "f c s data lx lr st' = Some y" by simp
        from step(1) [OF this] y have
          "(\<not> rejected data (fst st') (fst (snd st')) \<and> r = st')
           \<or> (\<exists>k. nth_draw c s data lx lr k (snd (snd st')) = Inr r
                  \<and> \<not> rejected data (fst r) (fst (snd r)))"
          by blast
        then show ?thesis
        proof
          assume "\<not> rejected data (fst st') (fst (snd st')) \<and> r = st'"
          with Inr have "nth_draw c s data lx lr 0 (snd (snd st)) = Inr r
              \<and> \<not> rejected data (fst r) (fst (snd r))"
            by simp
          then show ?thesis by blast
        next
          assume "\<exists>k. nth_draw c s data lx lr k (snd (snd st')) = Inr r
                  \<and> \<not> rejected data (fst r) (fst (snd r))"
          then obtain k where k: "nth_draw c s data lx lr k (snd (snd st')) = Inr r"
            "\<not> rejected data (fst r) (fst (snd r))" by blast
          obtain a b g1 where st': "st' = (a, b, g1)" by (cases st') auto
          with Inr k(1) have "nth_draw c s data lx lr (Suc k) (snd (snd st)) = Inr r"
            by simp
          with k(2) show ?thesis by blast
        qed
      qed
    qed
  qed
qed

lemma gen_trial_returns_draw:
  assumes "gen_trial c s data lx lr g = Some (Inr (lo, hi, g'))"
  shows "\<exists>k. nth_draw c s data lx lr k g = Inr (lo, hi, g') \<and> \<not> rejected data lo hi"
proof -
  from assms obtain st where d: "draw_trial c s data lx lr g = Inr st"
    and r: "rejection_loop c s data lx lr st = Some (Inr (lo, hi, g'))"
    by (auto simp: gen_trial_def split: sum.splits)
  obtain a b g1 where st: "st = (a, b, g1)" by (cases st) auto
  from rejection_loop_returns_draw [OF r] have
    "(\<not> rejected data (fst st) (fst (snd st)) \<and> (lo, hi, g') = st)
     \<or> (\<exists>k. nth_draw c s data lx lr k (snd (snd st)) = Inr (lo, hi, g')
            \<and> \<not> rejected data lo hi)"
    by simp
  then show ?thesis
  proof
    assume "\<not> rejected data (fst st) (fst (snd st)) \<and> (lo, hi, g') = st"
    with d have "nth_draw c s data lx lr 0 g = Inr (lo, hi, g') \<and> \<not> rejected data lo hi"
      by auto
    then show ?thesis by blast
  next
    assume "\<exists>k. nth_draw c s data lx lr k (snd (snd st)) = Inr (lo, hi, g')
            \<and> \<not> rejected data lo hi"
    then obtain k where "nth_draw c s data lx lr k g1 = Inr (lo, hi, g')"
      "\<not> rejected data lo hi" using st by auto
    with d st have "nth_draw c s data lx lr (Suc k) g = Inr (lo, hi, g')
        \<and> \<not> rejected data lo hi" by simp
    then show ?thesis by blast
  qed
qed

lemma accepted_pair_exists_iff:
  assumes "sorted data"
  shows "(\<exists>lo hi. lo < length data \<and> hi < length data \<and> \<not> rejected data lo hi)
     \<longleftrightarrow> 11 \<le> length data \<and> 2 * data ! 0 \<le> last data"
proof
  assume "\<exists>lo hi. lo < length data \<and> hi < length data \<and> \<not> rejected data lo hi"
  then obtain lo hi where lo: "lo < length data" and hi: "hi < length data"
    and d: "10 \<le> int hi - int lo" and r: "2 * data ! lo \<le> data ! hi"
    by (auto simp: rejected_def not_less)
  from d hi have len: "11 \<le> length data" by simp
  then have ne: "data \<noteq> []" by auto
  have "data ! 0 \<le> data ! lo" using assms lo by (simp add: sorted_nth_mono)
  moreover have "data ! hi \<le> data ! (length data - 1)"
    using assms hi by (intro sorted_nth_mono) simp_all
  ultimately have "2 * data ! 0 \<le> last data" using r ne by (simp add: last_conv_nth)
  with len show "11 \<le> length data \<and> 2 * data ! 0 \<le> last data" by simp
next
  assume a: "11 \<le> length data \<and> 2 * data ! 0 \<le> last data"
  then have ne: "data \<noteq> []" by auto
  with a have "\<not> rejected data 0 (length data - 1)"
    by (simp add: rejected_def last_conv_nth not_less)
  moreover have "0 < length data \<and> length data - 1 < length data" using ne by simp
  ultimately show "\<exists>lo hi. lo < length data \<and> hi < length data \<and> \<not> rejected data lo hi"
    by blast
qed

lemma gen_trial_diverges:
  assumes "\<not> (\<exists>lo hi. lo < length data \<and> hi < length data \<and> \<not> rejected data lo hi)"
    and "\<forall>v. nearest_first s data v < length data \<and> nearest_last s data v < length data"
  shows "gen_trial c s data lx lr g = None"
proof (rule ccontr)
  assume "gen_trial c s data lx lr g \<noteq> None"
  then obtain y where y: "gen_trial c s data lx lr g = Some y" by auto
  from draw_trial_returns [OF assms(2), of c lx lr g] obtain st where
    d: "draw_trial c s data lx lr g = Inr st" by blast
  with y have "rejection_loop c s data lx lr st = Some y" by (simp add: gen_trial_def)
  from rejection_loop_no_error [OF this assms(2)] obtain r where "y = Inr r" by blast
  moreover obtain lo hi g' where "r = (lo, hi, g')" by (cases r) auto
  ultimately have "gen_trial c s data lx lr g = Some (Inr (lo, hi, g'))" using y by simp
  from gen_trial_returns_draw [OF this] obtain k where
    "nth_draw c s data lx lr k g = Inr (lo, hi, g')" "\<not> rejected data lo hi" by blast
  with nth_draw_in_range [of c s data lx lr k g lo hi g'] assms(1) show False by blast
qed


text \<open>
  C3, as the code has it, for sorted data: the trial generator returns a pair exactly when
  some draw of the random stream snaps to a pair that the \<^verbatim>\<open>while\<close> test accepts; such a
  pair exists exactly when the data has at least 11 points and its largest entry is at least
  twice its smallest; otherwise the generator never returns a pair, and it runs forever when
  the lookups stay within the array.
\<close>

theorem rejection_loop_termination:
  assumes "sorted data"
  shows "((\<exists>r. gen_trial c s data lx lr g = Some (Inr r))
          \<longleftrightarrow> (\<exists>k lo hi g'. nth_draw c s data lx lr k g = Inr (lo, hi, g')
                  \<and> \<not> rejected data lo hi))
       \<and> ((\<exists>lo hi. lo < length data \<and> hi < length data \<and> \<not> rejected data lo hi)
          \<longleftrightarrow> 11 \<le> length data \<and> 2 * data ! 0 \<le> last data)
       \<and> (\<not> (11 \<le> length data \<and> 2 * data ! 0 \<le> last data) \<longrightarrow>
            (\<forall>r. gen_trial c s data lx lr g \<noteq> Some (Inr r))
            \<and> ((\<forall>v. nearest_first s data v < length data \<and> nearest_last s data v < length data)
                \<longrightarrow> gen_trial c s data lx lr g = None))"
proof (intro conjI impI)
  show "(\<exists>r. gen_trial c s data lx lr g = Some (Inr r))
          \<longleftrightarrow> (\<exists>k lo hi g'. nth_draw c s data lx lr k g = Inr (lo, hi, g')
                  \<and> \<not> rejected data lo hi)"
  proof
    assume "\<exists>r. gen_trial c s data lx lr g = Some (Inr r)"
    then obtain lo hi g' where "gen_trial c s data lx lr g = Some (Inr (lo, hi, g'))"
      by (metis prod_cases3)
    from gen_trial_returns_draw [OF this]
    show "\<exists>k lo hi g'. nth_draw c s data lx lr k g = Inr (lo, hi, g') \<and> \<not> rejected data lo hi"
      by blast
  next
    assume "\<exists>k lo hi g'. nth_draw c s data lx lr k g = Inr (lo, hi, g') \<and> \<not> rejected data lo hi"
    then obtain k lo hi g' where "nth_draw c s data lx lr k g = Inr (lo, hi, g')"
      "\<not> rejected data lo hi" by blast
    then show "\<exists>r. gen_trial c s data lx lr g = Some (Inr r)"
      by (rule accepted_draw_returns)
  qed
  show pairs: "(\<exists>lo hi. lo < length data \<and> hi < length data \<and> \<not> rejected data lo hi)
          \<longleftrightarrow> 11 \<le> length data \<and> 2 * data ! 0 \<le> last data"
    using assms by (rule accepted_pair_exists_iff)
  {
    assume "\<not> (11 \<le> length data \<and> 2 * data ! 0 \<le> last data)"
    with pairs have
      none: "\<not> (\<exists>lo hi. lo < length data \<and> hi < length data \<and> \<not> rejected data lo hi)"
      by simp
    show "\<forall>r. gen_trial c s data lx lr g \<noteq> Some (Inr r)"
    proof (intro allI notI)
      fix r assume r: "gen_trial c s data lx lr g = Some (Inr r)"
      obtain lo hi g' where "r = (lo, hi, g')" by (cases r) auto
      with r have "gen_trial c s data lx lr g = Some (Inr (lo, hi, g'))" by simp
      from gen_trial_returns_draw [OF this] obtain k where
        "nth_draw c s data lx lr k g = Inr (lo, hi, g')" "\<not> rejected data lo hi" by blast
      with nth_draw_in_range [of c s data lx lr k g lo hi g'] none show False by blast
    qed
    assume "\<forall>v. nearest_first s data v < length data \<and> nearest_last s data v < length data"
    with none show "gen_trial c s data lx lr g = None" by (rule gen_trial_diverges)
  }
qed

lemma ten_points_facts:
  "length ten_points = 10" "ten_points ! 0 = 1" "last ten_points = 10" "sorted ten_points"
  "sort ten_points = ten_points" "ten_points \<noteq> []"
  by (simp_all add: ten_points_def)

lemma sample_nearest_in_range:
  "data \<noteq> [] \<Longrightarrow>
   \<forall>v. nearest_first (initial_strategy sample_collab) data v < length data
      \<and> nearest_last (initial_strategy sample_collab) data v < length data"
  by (simp add: sample_nearest nearest_idx_in_range)

lemma sample_sorted_sorted: "sorted sample_sorted"
  by (simp add: sample_sorted_def)

theorem rejection_loop_termination_witness:
  "(\<exists>k lo hi g'.
      nth_draw sample_collab (initial_strategy sample_collab) sample_sorted 0 (ln 16) k 0
        = Inr (lo, hi, g')
      \<and> \<not> rejected sample_sorted lo hi)
   \<and> (\<exists>lo hi. lo < length sample_sorted \<and> hi < length sample_sorted
         \<and> \<not> rejected sample_sorted lo hi)
   \<and> gen_trial sample_collab (initial_strategy sample_collab) ten_points 0 (ln 10) 0 = None"
proof -
  have "\<exists>r. gen_trial sample_collab (initial_strategy sample_collab) sample_sorted 0 (ln 16) 0
      = Some (Inr r)"
    using sample_gen_trial [of 0 "initial_strategy sample_collab"] sample_nearest by simp
  with rejection_loop_termination [OF sample_sorted_sorted,
      of sample_collab "initial_strategy sample_collab" 0 "ln 16" 0]
  have a: "\<exists>k lo hi g'.
      nth_draw sample_collab (initial_strategy sample_collab) sample_sorted 0 (ln 16) k 0
        = Inr (lo, hi, g')
      \<and> \<not> rejected sample_sorted lo hi"
    by blast
  have "11 \<le> length sample_sorted \<and> 2 * sample_sorted ! 0 \<le> last sample_sorted"
    by (simp add: sample_sorted_facts)
  with rejection_loop_termination [OF sample_sorted_sorted,
      of sample_collab "initial_strategy sample_collab" 0 "ln 16" 0]
  have b: "\<exists>lo hi. lo < length sample_sorted \<and> hi < length sample_sorted
         \<and> \<not> rejected sample_sorted lo hi"
    by blast
  have "\<not> (11 \<le> length ten_points \<and> 2 * ten_points ! 0 \<le> last ten_points)"
    by (simp add: ten_points_facts)
  with rejection_loop_termination [OF ten_points_facts(4),
      of sample_collab "initial_strategy sample_collab" 0 "ln 10" 0]
    sample_nearest_in_range [OF ten_points_facts(6)]
  have c: "gen_trial sample_collab (initial_strategy sample_collab) ten_points 0 (ln 10) 0 = None"
    by blast
  from a b c show ?thesis by blast
qed

text \<open>
  C3 as the specification states it fails on ten points: the data \<open>1, \<dots>, 10\<close> has 10
  points and ratio 10, and the call never returns.
\<close>

theorem ten_points_counterexample:
  "length ten_points = 10
   \<and> 2 * ten_points ! 0 \<le> last ten_points
   \<and> gen_trial sample_collab (initial_strategy sample_collab) ten_points
        (ln (ten_points ! 0)) (ln (last ten_points) - ln (ten_points ! 0)) 0 = None
   \<and> find_pl_montecarlo sample_collab ten_points 1 (7 / 20) (1 / 4) 3 ''KS'' True 0 = None"
proof -
  have none: "\<not> (\<exists>lo hi. lo < length ten_points \<and> hi < length ten_points
      \<and> \<not> rejected ten_points lo hi)"
    by (auto simp: rejected_def ten_points_facts)
  have g: "gen_trial sample_collab (initial_strategy sample_collab) ten_points lx lr 0 = None"
    for lx lr
    using none sample_nearest_in_range [OF ten_points_facts(6)] by (rule gen_trial_diverges)
  have "trial_sweep sample_collab (initial_strategy sample_collab) ten_points 1 0 = None"
    by (simp add: trial_sweep_def ten_points_facts g)
  then have "find_pl_montecarlo sample_collab ten_points 1 (7 / 20) (1 / 4) 3 ''KS'' True 0 = None"
    by (simp add: find_pl_montecarlo_def sample_strategy_KS ten_points_facts)
  with g show ?thesis by (simp add: ten_points_facts)
qed

subsection \<open>The caller's array\<close>

lemma alloc_frame:
  "alloc h xs = (h', a) \<Longrightarrow> a = length h \<and> h' = h @ [xs]"
  by (auto simp: alloc_def)

lemma store_write_length [simp]: "length (store_write h a i v) = length h"
  by (simp add: store_write_def)

lemma store_write_other [simp]: "x \<noteq> a \<Longrightarrow> store_write h a i v ! x = h ! x"
  by (simp add: store_write_def)

lemma store_write_same [simp]:
  "a < length h \<Longrightarrow> store_write h a i v ! a = (h ! a)[i := v]"
  by (simp add: store_write_def)

lemma record_trial_at_length [simp]:
  "length (record_trial_at s h d refs i lo hi) = length h"
  by (simp add: record_trial_at_def Let_def split: prod.splits if_splits)

lemma record_trial_at_other:
  "x \<notin> set (refs_list refs) \<Longrightarrow> record_trial_at s h d refs i lo hi ! x = h ! x"
  by (auto simp: record_trial_at_def refs_list_def Let_def split: prod.splits if_splits)

lemma refs_ok_record_trial_at:
  "refs_ok h d refs \<Longrightarrow> refs_ok (record_trial_at s h d refs i lo hi) d refs"
  by (simp add: refs_ok_def)

lemma load_batch_record_trial_at:
  assumes "refs_ok h d refs"
  shows "load_batch (record_trial_at s h d refs i lo hi) refs
     = record_trial s (h ! d) i lo hi (load_batch h refs)"
  using assms
  by (auto simp: refs_ok_def refs_list_def load_batch_def record_trial_at_def record_trial_def
      Let_def split: prod.splits if_splits)


lemma sweep_loop_at_frame:
  assumes "sweep_loop_at c s h d lx lr is refs g = Some (h', out)"
  shows "length h' = length h \<and> (\<forall>x. x \<notin> set (refs_list refs) \<longrightarrow> h' ! x = h ! x)"
  using assms
proof (induction "is" arbitrary: h g)
  case Nil
  then show ?case by simp
next
  case (Cons i "is")
  show ?case
  proof (cases "gen_trial c s (h ! d) lx lr g")
    case None
    with Cons.prems show ?thesis by simp
  next
    case (Some y)
    show ?thesis
    proof (cases y)
      case (Inl e)
      with Some Cons.prems show ?thesis by simp
    next
      case (Inr st)
      obtain lo hi g1 where st: "st = (lo, hi, g1)" by (cases st) auto
      with Some Inr Cons.prems have
        "sweep_loop_at c s (record_trial_at s h d refs i lo hi) d lx lr is refs g1 = Some (h', out)"
        by simp
      from Cons.IH [OF this] show ?thesis by (simp add: record_trial_at_other)
    qed
  qed
qed

lemma sweep_loop_at_agrees:
  assumes "refs_ok h d refs"
  shows "map_option (\<lambda>(h', r). case r of Inl e \<Rightarrow> Inl e | Inr g' \<Rightarrow> Inr (load_batch h' refs, g'))
           (sweep_loop_at c s h d lx lr is refs g)
     = sweep_loop c s (h ! d) lx lr is (load_batch h refs) g"
  using assms
proof (induction "is" arbitrary: h g)
  case Nil
  then show ?case by simp
next
  case (Cons i "is")
  show ?case
  proof (cases "gen_trial c s (h ! d) lx lr g")
    case None
    then show ?thesis by simp
  next
    case (Some y)
    show ?thesis
    proof (cases y)
      case (Inl e)
      with Some show ?thesis by simp
    next
      case (Inr st)
      obtain lo hi g1 where st: "st = (lo, hi, g1)" by (cases st) auto
      let ?h1 = "record_trial_at s h d refs i lo hi"
      have ok: "refs_ok ?h1 d refs" using Cons.prems by (rule refs_ok_record_trial_at)
      have "d \<notin> set (refs_list refs)"
        using Cons.prems by (auto simp: refs_ok_def list_all_iff)
      then have d: "?h1 ! d = h ! d" by (rule record_trial_at_other)
      from Cons.IH [OF ok, of g1] Some Inr st d
        load_batch_record_trial_at [OF Cons.prems, of s i lo hi]
      show ?thesis by simp
    qed
  qed
qed

lemma alloc_batch_result:
  assumes "alloc_batch h runs = (h', refs)"
  shows "take (length h) h' = h" "length h \<le> length h'"
    "d < length h \<Longrightarrow> refs_ok h' d refs"
    "load_batch h' refs = initial_batch runs"
    "set (refs_list refs) \<inter> {..<length h} = {}"
    "x < length h \<Longrightarrow> h' ! x = h ! x"
  using assms
  by (auto simp: alloc_batch_def alloc_def Let_def refs_ok_def refs_list_def load_batch_def
      initial_batch_def nth_append)

lemma np_sort_at_result:
  assumes "np_sort_at h a = (h', d)"
  shows "h' = h @ [sort (h ! a)]" "d = length h" "h' ! d = sort (h ! a)"
  using assms by (auto simp: np_sort_at_def alloc_def)


lemma take_eq_if_nth:
  assumes "length h \<le> length h'" "\<forall>x < length h. h' ! x = h ! x"
  shows "take (length h) h' = h"
  using assms by (intro nth_equalityI) simp_all

lemma find_pl_montecarlo_at_frame:
  assumes "find_pl_montecarlo_at c h a runs pqcrit pcrit pruns dist_type calc_p g = Some (h', out)"
  shows "take (length h) h' = h"
proof -
  let ?h1 = "h @ [sort (h ! a)]"
  let ?d = "length h"
  have ns: "np_sort_at h a = (?h1, ?d)" by (simp add: np_sort_at_def alloc_def)
  have t1: "take (length h) ?h1 = h" by simp
  show ?thesis
  proof (cases "select_strategy c dist_type")
    case None
    with assms ns have "h' = ?h1" by (simp add: find_pl_montecarlo_at_def)
    then show ?thesis by simp
  next
    case (Some s)
    show ?thesis
    proof (cases "dist_type = ''discrete'' \<and> list_ex (\<lambda>x. x < 1) (sort (h ! a))")
      case True
      with assms ns Some have "h' = ?h1" by (simp add: find_pl_montecarlo_at_def)
      then show ?thesis by simp
    next
      case False
      then have nd: "(dist_type = ''discrete'' \<and> list_ex (\<lambda>x. x < 1) (sort (h ! a))) = False"
        by simp
      obtain h2 refs where ab: "alloc_batch ?h1 runs = (h2, refs)"
        by (cases "alloc_batch ?h1 runs") auto
      note abr = alloc_batch_result [OF ab]
      have h2: "\<forall>x < length h. h2 ! x = h ! x"
        using abr(6) by (simp add: nth_append)
      have l2: "length h \<le> length h2" using abr(2) by simp
      have fresh: "\<forall>x < length h. x \<notin> set (refs_list refs)" using abr(5) by auto
      show ?thesis
      proof (cases "h2 ! ?d = []")
        case True
        with assms ns Some nd ab have "h' = h2"
          by (simp add: find_pl_montecarlo_at_def)
        with h2 l2 show ?thesis by (simp add: take_eq_if_nth)
      next
        case ne: False
        let ?sw = "sweep_loop_at c s h2 ?d (ln ((h2 ! ?d) ! 0))
            (ln (last (h2 ! ?d)) - ln ((h2 ! ?d) ! 0)) [0..<runs] refs g"
        from assms ns Some nd ab ne obtain r where sw: "?sw = Some (h', r)"
          by (auto simp: find_pl_montecarlo_at_def Let_def
              split: option.splits sum.splits prod.splits)
        from sweep_loop_at_frame [OF sw] have
          "length h' = length h2" "\<forall>x. x \<notin> set (refs_list refs) \<longrightarrow> h' ! x = h2 ! x"
          by simp_all
        with h2 l2 fresh have "length h \<le> length h'" "\<forall>x < length h. h' ! x = h ! x"
          by simp_all
        then show ?thesis by (rule take_eq_if_nth)
      qed
    qed
  qed
qed

lemma find_pl_montecarlo_unfold:
  assumes "select_strategy c dist_type = Some s"
    and "\<not> (dist_type = ''discrete'' \<and> list_ex (\<lambda>x. x < 1) (sort data))"
  shows "find_pl_montecarlo c data runs pqcrit pcrit pruns dist_type calc_p g
     = (case trial_sweep c s (sort data) runs g of
          None \<Rightarrow> None
        | Some (Inl e) \<Rightarrow> Some (Inl e)
        | Some (Inr (b, g1)) \<Rightarrow>
            (case select_result c (sort data) b pqcrit (if calc_p then pcrit else pqcrit) pruns
                    (dfun s) calc_p g1 of
               Inl e \<Rightarrow> Some (Inl e)
             | Inr r \<Rightarrow> Some (Inr ([], r))))"
  using assms by (auto simp: find_pl_montecarlo_def Let_def)

lemma find_pl_montecarlo_at_unfold:
  assumes "select_strategy c dist_type = Some s"
    and "\<not> (dist_type = ''discrete'' \<and> list_ex (\<lambda>x. x < 1) (sort (h ! a)))"
    and "alloc_batch (h @ [sort (h ! a)]) runs = (h2, refs)"
    and "h2 ! length h = sort (h ! a)"
  shows "find_pl_montecarlo_at c h a runs pqcrit pcrit pruns dist_type calc_p g
     = (if sort (h ! a) = [] then Some (h2, Inl IndexError)
        else case sweep_loop_at c s h2 (length h) (ln (sort (h ! a) ! 0))
                    (ln (last (sort (h ! a))) - ln (sort (h ! a) ! 0)) [0..<runs] refs g of
               None \<Rightarrow> None
             | Some (h3, Inl e) \<Rightarrow> Some (h3, Inl e)
             | Some (h3, Inr g1) \<Rightarrow>
                 (case select_result c (h3 ! length h) (load_batch h3 refs) pqcrit
                         (if calc_p then pcrit else pqcrit) pruns (dfun s) calc_p g1 of
                    Inl e \<Rightarrow> Some (h3, Inl e)
                  | Inr r \<Rightarrow> Some (h3, Inr ([], r))))"
  using assms
  by (auto simp: find_pl_montecarlo_at_def np_sort_at_def alloc_def Let_def)

lemma find_pl_montecarlo_at_agrees:
  assumes "a < length h"
  shows "map_option snd (find_pl_montecarlo_at c h a runs pqcrit pcrit pruns dist_type calc_p g)
     = find_pl_montecarlo c (h ! a) runs pqcrit pcrit pruns dist_type calc_p g"
proof -
  let ?h1 = "h @ [sort (h ! a)]"
  let ?d = "length h"
  let ?data = "sort (h ! a)"
  show ?thesis
  proof (cases "select_strategy c dist_type")
    case None
    then show ?thesis
      by (simp add: find_pl_montecarlo_at_def find_pl_montecarlo_def np_sort_at_def alloc_def)
  next
    case (Some s)
    show ?thesis
    proof (cases "dist_type = ''discrete'' \<and> list_ex (\<lambda>x. x < 1) ?data")
      case True
      with Some show ?thesis
        by (simp add: find_pl_montecarlo_at_def find_pl_montecarlo_def np_sort_at_def alloc_def)
    next
      case False
      obtain h2 refs where ab: "alloc_batch ?h1 runs = (h2, refs)"
        by (cases "alloc_batch ?h1 runs") auto
      have dl: "?d < length ?h1" by simp
      note abr = alloc_batch_result [OF ab]
      have ok: "refs_ok h2 ?d refs" using abr(3) [OF dl] .
      have d2: "h2 ! ?d = ?data" using abr(6) [OF dl] by simp
      note lhs = find_pl_montecarlo_at_unfold [OF Some False ab d2]
      note rhs = find_pl_montecarlo_unfold [OF Some False]
      show ?thesis
      proof (cases "?data = []")
        case True
        then show ?thesis unfolding lhs rhs by (simp add: trial_sweep_def)
      next
        case ne: False
        let ?lx = "ln (?data ! 0)"
        let ?lr = "ln (last ?data) - ln (?data ! 0)"
        let ?sw = "sweep_loop_at c s h2 ?d ?lx ?lr [0..<runs] refs g"
        have ts: "trial_sweep c s ?data runs g
            = sweep_loop c s ?data ?lx ?lr [0..<runs] (initial_batch runs) g"
          using ne by (simp add: trial_sweep_def Let_def)
        have ag: "map_option
            (\<lambda>(h', r). case r of Inl e \<Rightarrow> Inl e | Inr g' \<Rightarrow> Inr (load_batch h' refs, g')) ?sw
          = trial_sweep c s ?data runs g"
          using sweep_loop_at_agrees [OF ok, of c s ?lx ?lr "[0..<runs]" g] d2 abr(4) ts
          by simp
        have nr: "?d \<notin> set (refs_list refs)" using abr(5) dl by auto
        show ?thesis
        proof (cases ?sw)
          case None
          with ag have "trial_sweep c s ?data runs g = None" by simp
          with None ne show ?thesis unfolding lhs rhs by simp
        next
          case (Some y)
          obtain h3 r where y: "y = (h3, r)" by (cases y) auto
          from sweep_loop_at_frame [OF Some [unfolded y]] nr d2
          have k: "h3 ! ?d = ?data" by simp
          show ?thesis
          proof (cases r)
            case (Inl e)
            with ag Some y have "trial_sweep c s ?data runs g = Some (Inl e)" by simp
            with Some y Inl ne show ?thesis unfolding lhs rhs by simp
          next
            case (Inr g1)
            with ag Some y have
              "trial_sweep c s ?data runs g = Some (Inr (load_batch h3 refs, g1))" by simp
            with Some y Inr ne k show ?thesis
              unfolding lhs rhs by (simp split: sum.splits)
          qed
        qed
      qed
    qed
  qed
qed

lemma find_p_wrap_at_frame:
  "take (length h) (fst (find_p_wrap_at c h a xmin xmax runs discrete g)) = h"
  by (simp add: find_p_wrap_at_def np_sort_at_def alloc_def)

lemma find_p_wrap_at_agrees:
  "snd (find_p_wrap_at c h a xmin xmax runs discrete g)
     = find_p_wrap c (h ! a) xmin xmax runs discrete g"
  by (simp add: find_p_wrap_at_def find_p_wrap_def np_sort_at_def alloc_def)


text \<open>
  C10: a call of \<^verbatim>\<open>find_pl_montecarlo\<close> or of \<^verbatim>\<open>find_p_wrap\<close> on the array at address
  \<open>a\<close> leaves that array, and every other array the store held before the call, as it was:
  \<^verbatim>\<open>np.sort\<close> writes its result into a new array, and the writes of the sweep go to the
  six arrays the call allocates. The calls on the store return what the calls on values
  return.
\<close>

theorem calls_leave_input_unchanged:
  assumes "a < length h"
  shows "(\<forall>h' out.
            find_pl_montecarlo_at c h a runs pqcrit pcrit pruns dist_type calc_p g = Some (h', out)
            \<longrightarrow> h' ! a = h ! a \<and> take (length h) h' = h)
       \<and> map_option snd (find_pl_montecarlo_at c h a runs pqcrit pcrit pruns dist_type calc_p g)
           = find_pl_montecarlo c (h ! a) runs pqcrit pcrit pruns dist_type calc_p g
       \<and> fst (find_p_wrap_at c h a xmin xmax pruns discrete g) ! a = h ! a
       \<and> take (length h) (fst (find_p_wrap_at c h a xmin xmax pruns discrete g)) = h
       \<and> snd (find_p_wrap_at c h a xmin xmax pruns discrete g)
           = find_p_wrap c (h ! a) xmin xmax pruns discrete g"
proof (intro conjI allI impI)
  fix h' out
  assume r: "find_pl_montecarlo_at c h a runs pqcrit pcrit pruns dist_type calc_p g
      = Some (h', out)"
  then show t: "take (length h) h' = h" by (rule find_pl_montecarlo_at_frame)
  have "take (length h) h' ! a = h' ! a" using assms by simp
  with t show "h' ! a = h ! a" by simp
next
  show "map_option snd (find_pl_montecarlo_at c h a runs pqcrit pcrit pruns dist_type calc_p g)
           = find_pl_montecarlo c (h ! a) runs pqcrit pcrit pruns dist_type calc_p g"
    using assms by (rule find_pl_montecarlo_at_agrees)
next
  let ?h' = "fst (find_p_wrap_at c h a xmin xmax pruns discrete g)"
  show t: "take (length h) ?h' = h" by (rule find_p_wrap_at_frame)
  have "take (length h) ?h' ! a = ?h' ! a" using assms by simp
  with t show "?h' ! a = h ! a" by simp
next
  show "snd (find_p_wrap_at c h a xmin xmax pruns discrete g)
           = find_p_wrap c (h ! a) xmin xmax pruns discrete g"
    by (rule find_p_wrap_at_agrees)
qed

lemma sample_call:
  "find_pl_montecarlo sample_collab sample_data 2 (7 / 20) (1 / 4) 3 ''KS'' False 0
     = Some (Inr ([], 1, 4, 2))"
proof -
  have nd: "\<not> (''KS'' = ''discrete'' \<and> (\<exists>x \<in> set sample_data. x < 1))" by simp
  have sw: "trial_sweep sample_collab (initial_strategy sample_collab) (sort sample_data) 2 0
      = Some (Inr (sample_batch, 4))"
    using sample_sweep_sorted(1) [of 0] by simp
  have "np_where_gt (take_idx (attempted_pqs sample_batch) [0, 1]) (7 / 20) = [0, 1]"
    using sample_pq_high by (simp add: np_where_gt_def take_idx_def sample_batch_def upt_2)
  then have "select_result sample_collab (sort sample_data) sample_batch (7 / 20) (7 / 20) 3
      (dfun (initial_strategy sample_collab)) False 4 = Inr (1, 4, 2)"
    by (simp add: select_result_def sample_idxs Let_def)
      (simp add: take_idx_def sample_batch_def np_argmax_def)
  then show ?thesis
    unfolding find_pl_montecarlo_select [OF sample_strategy_KS nd sw] by simp
qed

theorem calls_leave_input_unchanged_witness:
  "(\<exists>h' out.
      find_pl_montecarlo_at sample_collab [sample_data] 0 2 (7 / 20) (1 / 4) 3 ''KS'' False 0
        = Some (h', out)
      \<and> out = Inr ([], 1, 4, 2) \<and> h' ! 0 = sample_data \<and> take 1 h' = [sample_data])
   \<and> fst (find_p_wrap_at sample_collab [sample_data] 0 1 4 3 False 0) ! 0 = sample_data
   \<and> take 1 (fst (find_p_wrap_at sample_collab [sample_data] 0 1 4 3 False 0)) = [sample_data]"
proof -
  have a: "(0::nat) < length [sample_data]" by simp
  note th = calls_leave_input_unchanged [OF a, where c = sample_collab and runs = 2
      and pqcrit = "7 / 20" and pcrit = "1 / 4" and pruns = 3 and dist_type = "''KS''"
      and calc_p = False and g = 0 and xmin = 1 and xmax = 4 and discrete = False]
  from th have "map_option snd
      (find_pl_montecarlo_at sample_collab [sample_data] 0 2 (7 / 20) (1 / 4) 3 ''KS'' False 0)
      = Some (Inr ([], 1, 4, 2))"
    using sample_call by simp
  then obtain h' out where r:
    "find_pl_montecarlo_at sample_collab [sample_data] 0 2 (7 / 20) (1 / 4) 3 ''KS'' False 0
       = Some (h', out)" and o: "out = Inr ([], 1, 4, 2)"
    by auto
  from th r have "h' ! 0 = sample_data \<and> take 1 h' = [sample_data]" by simp
  with r o th show ?thesis by simp
qed

end
